theory Spec2Isabelle
  imports Main "HOL-Library.Multiset" "HOL-Library.Log_Nat"
begin

section \<open>The churn preprocessing script (preprocess.py)\<close>

text \<open>
  The notebook writes one program of its own, \<^verbatim>\<open>preprocess.py\<close>: it downloads a CSV
  file, drops columns, one-hot encodes the categorical columns, moves the churn label to
  the front, shuffles, cuts the rows at \<^verbatim>\<open>int(0.7 * n)\<close> and \<^verbatim>\<open>int(0.9 * n)\<close> and writes
  three header-free CSV files. The script is a sequence of pandas and numpy calls; each
  call is modelled below by a function of the same name that follows the documented
  behaviour of the library (pandas 1.1, the version in the scikit-learn 0.23-1 image the
  notebook runs the script in). What the script cannot fix by itself is a parameter:
  the CSV parser, the permutation a generator draws and the text of a float are the
  library; the directories and files, the S3 store and the state of numpy's global
  generator are the world the script is started in.
\<close>

subsection \<open>Errors\<close>

datatype error =
    IndexError
  | ClientError
  | EmptyDataError
  | ParserError
  | KeyError "string list"
  | OSError string

subsection \<open>Data frames\<close>

text \<open>
  A cell is a Python value: an integer, a float (a finite double is a rational; the script
  never computes with cell values), a bool, a string, or the missing value NaN.
  A frame is column-major, as in pandas: the row labels and a list of named, typed columns.
\<close>

datatype cell = I int | F rat | B bool | S string | NaN

datatype dtype = Int64 | Float64 | Bool | Object | UInt8

record series =
  col_name :: string
  col_dtype :: dtype
  col_vals :: "cell list"

record dataframe =
  df_index :: "nat list"
  df_columns :: "series list"

definition len :: "dataframe \<Rightarrow> nat" where
  "len df = length (df_index df)"

definition names :: "dataframe \<Rightarrow> string list" where
  "names df = map col_name (df_columns df)"

definition rows_of :: "dataframe \<Rightarrow> cell list list" where
  \<comment> \<open>the rows in their current order, each with one value per column\<close>
  "rows_of df = map (\<lambda>i. map (\<lambda>c. col_vals c ! i) (df_columns df)) [0..<len df]"

definition labelled_rows :: "dataframe \<Rightarrow> (nat \<times> cell list) list" where
  \<comment> \<open>a row together with its index label, which is what identifies it in pandas\<close>
  "labelled_rows df = zip (df_index df) (rows_of df)"

definition wf_df :: "dataframe \<Rightarrow> bool" where
  \<comment> \<open>what every frame built by \<^verbatim>\<open>read_csv\<close> satisfies: a RangeIndex (no label twice) and
      columns as long as the index\<close>
  "wf_df df \<longleftrightarrow> distinct (df_index df) \<and>
     list_all (\<lambda>c. length (col_vals c) = length (df_index df)) (df_columns df)"

subsection \<open>The environment\<close>

text \<open>
  A generator is either a fresh \<^verbatim>\<open>RandomState(seed)\<close> or numpy's global one, in the state
  the process found it in (it is seeded from the entropy of the operating system).
\<close>

datatype generator = RandomState nat | Global nat

record lib =
  csv_parser :: "string \<Rightarrow> error + dataframe"
  permutation :: "generator \<Rightarrow> nat \<Rightarrow> nat list"
  float_repr :: "rat \<Rightarrow> string"

text \<open>
  \<open>csv_parser\<close> is pandas' parser with its type inference; \<open>permutation g n\<close> is what
  \<^verbatim>\<open>g.permutation(n)\<close> returns first; \<open>float_repr\<close> is \<^verbatim>\<open>repr\<close> of a float.
\<close>

record world =
  dirs :: "string set"
  files :: "string \<rightharpoonup> string"
  denied :: "string set"
  short_write :: "string \<rightharpoonup> nat"
  s3_object :: "string \<Rightarrow> string \<Rightarrow> string option"
  entropy :: nat

text \<open>
  \<open>dirs\<close> and \<open>files\<close> are the directories and the regular files with their bytes;
  \<open>denied\<close> are the paths the system refuses to create or to open for writing (permissions,
  a read-only volume); \<open>short_write p = Some k\<close> says that the system takes only \<open>k\<close> bytes
  for the file \<open>p\<close> (a full disk, a quota); \<open>s3_object bucket key\<close> is the object's bytes;
  \<open>entropy\<close> is the state of the global generator.
\<close>

definition is_permutation :: "nat list \<Rightarrow> nat \<Rightarrow> bool" where
  "is_permutation p n \<longleftrightarrow> mset p = mset [0..<n]"

subsection \<open>Python strings\<close>

fun py_split :: "char \<Rightarrow> string \<Rightarrow> string list" where
  "py_split sep [] = [[]]"
| "py_split sep (c # cs) =
     (if c = sep then [] # py_split sep cs
      else (case py_split sep cs of [] \<Rightarrow> [[c]] | p # ps \<Rightarrow> (c # p) # ps))"

fun py_join :: "string \<Rightarrow> string list \<Rightarrow> string" where
  "py_join sep [] = []"
| "py_join sep [p] = p"
| "py_join sep (p # q # ps) = p @ sep @ py_join sep (q # ps)"

fun str_nat :: "nat \<Rightarrow> string" where
  "str_nat n = (if n < 10 then [''0123456789'' ! n]
     else str_nat (n div 10) @ [''0123456789'' ! (n mod 10)])"

definition str_int :: "int \<Rightarrow> string" where
  "str_int i = (if i < 0 then CHR ''-'' # str_nat (nat (- i)) else str_nat (nat i))"

fun str_le :: "string \<Rightarrow> string \<Rightarrow> bool" where
  \<comment> \<open>Python's order on \<^verbatim>\<open>str\<close>: lexicographic by code point\<close>
  "str_le [] ys = True"
| "str_le (x # xs) [] = False"
| "str_le (x # xs) (y # ys) =
     ((of_char x :: nat) < of_char y \<or> (x = y \<and> str_le xs ys))"

subsection \<open>\<^verbatim>\<open>int(0.7 * n)\<close> in double precision\<close>

text \<open>
  Python multiplies two doubles and truncates. \<^verbatim>\<open>0.7\<close> and \<^verbatim>\<open>0.9\<close> are the doubles
  \<open>6305039478318694 / 2^53\<close> and \<open>8106479329266893 / 2^53\<close>; \<^verbatim>\<open>float(n)\<close> rounds \<open>n\<close> to 53
  significant bits and the product is rounded again, both to nearest, ties to even. With
  the product kept as a numerator over \<open>2^53\<close> everything is integer arithmetic. (A length
  is below \<open>2^63\<close>, so neither overflow nor subnormal numbers occur.)
\<close>

definition bit_length :: "nat \<Rightarrow> nat" where
  "bit_length n = floorlog 2 n"

definition round_double :: "nat \<Rightarrow> nat" where
  \<comment> \<open>round to 53 significant bits, to nearest, ties to even\<close>
  "round_double p =
     (let s = bit_length p - 53; q = p div 2 ^ s; r = p mod 2 ^ s
      in if 2 ^ s < 2 * r \<or> (2 * r = 2 ^ s \<and> odd q) then (q + 1) * 2 ^ s else q * 2 ^ s)"

definition float_0_7 :: nat where
  "float_0_7 = 6305039478318694"

definition float_0_9 :: nat where
  "float_0_9 = 8106479329266893"

definition int_float_mul :: "nat \<Rightarrow> nat \<Rightarrow> nat" where
  \<comment> \<open>\<^verbatim>\<open>int(c * n)\<close> for the double \<open>c = m / 2^53\<close>\<close>
  "int_float_mul m n = round_double (m * round_double n) div 2 ^ 53"

subsection \<open>pandas and numpy\<close>

definition drop_columns :: "string list \<Rightarrow> dataframe \<Rightarrow> error + dataframe" where
  \<comment> \<open>\<^verbatim>\<open>df.drop(labels, axis=1)\<close>: a label that is no column raises KeyError, naming the
      labels not found; otherwise every column with one of the labels goes\<close>
  "drop_columns labels df =
     (let missing = filter (\<lambda>l. l \<notin> set (names df)) labels
      in if missing \<noteq> [] then Inl (KeyError missing)
         else Inr (df\<lparr>df_columns := filter (\<lambda>c. col_name c \<notin> set labels) (df_columns df)\<rparr>))"

definition getitem :: "dataframe \<Rightarrow> string \<Rightarrow> error + series list" where
  \<comment> \<open>\<^verbatim>\<open>df[key]\<close>: the column of that name (all of them, as a frame, when the name is there
      more than once); KeyError when there is none\<close>
  "getitem df key =
     (case filter (\<lambda>c. col_name c = key) (df_columns df) of
        [] \<Rightarrow> Inl (KeyError [key])
      | cs \<Rightarrow> Inr cs)"

definition astype_object :: "string \<Rightarrow> dataframe \<Rightarrow> error + dataframe" where
  \<comment> \<open>\<^verbatim>\<open>df[key] = df[key].astype(object)\<close>: the column keeps its place and its values
      and becomes an object column\<close>
  "astype_object key df =
     (case getitem df key of
        Inl e \<Rightarrow> Inl e
      | Inr _ \<Rightarrow> Inr (df\<lparr>df_columns :=
          map (\<lambda>c. if col_name c = key then c\<lparr>col_dtype := Object\<rparr> else c) (df_columns df)\<rparr>))"

fun cell_num :: "cell \<Rightarrow> rat option" where
  "cell_num (I i) = Some (of_int i)"
| "cell_num (F r) = Some r"
| "cell_num (B b) = Some (if b then 1 else 0)"
| "cell_num (S s) = None"
| "cell_num NaN = None"

definition py_eq :: "cell \<Rightarrow> cell \<Rightarrow> bool" where
  \<comment> \<open>Python's \<^verbatim>\<open>==\<close>: numbers by value (\<^verbatim>\<open>1 == 1.0 == True\<close>), strings by content\<close>
  "py_eq a b =
     (case (a, b) of
        (S x, S y) \<Rightarrow> x = y
      | (NaN, _) \<Rightarrow> False
      | (_, NaN) \<Rightarrow> False
      | _ \<Rightarrow> (case (cell_num a, cell_num b) of (Some x, Some y) \<Rightarrow> x = y | _ \<Rightarrow> False))"

definition level_le :: "cell \<Rightarrow> cell \<Rightarrow> bool" where
  \<comment> \<open>the order in which pandas sorts the categories: numbers by value, then strings\<close>
  "level_le a b =
     (case (cell_num a, cell_num b) of
        (Some x, Some y) \<Rightarrow> x \<le> y
      | (Some x, None) \<Rightarrow> True
      | (None, Some y) \<Rightarrow> False
      | (None, None) \<Rightarrow> (case (a, b) of (S x, S y) \<Rightarrow> str_le x y | _ \<Rightarrow> True))"

fun uniques :: "cell list \<Rightarrow> cell list" where
  \<comment> \<open>the distinct values, each at its first occurrence\<close>
  "uniques [] = []"
| "uniques (x # xs) = x # filter (\<lambda>y. \<not> py_eq y x) (uniques xs)"

fun insort_level :: "cell \<Rightarrow> cell list \<Rightarrow> cell list" where
  "insort_level x [] = [x]"
| "insort_level x (y # ys) = (if level_le x y then x # y # ys else y # insort_level x ys)"

definition levels :: "cell list \<Rightarrow> cell list" where
  \<comment> \<open>the categories of a column: the observed values other than NaN, sorted\<close>
  "levels vs = foldr insort_level (uniques (filter (\<lambda>v. v \<noteq> NaN) vs)) []"

definition level_str :: "lib \<Rightarrow> cell \<Rightarrow> string" where
  \<comment> \<open>Python's \<^verbatim>\<open>str\<close> of a value\<close>
  "level_str l v =
     (case v of
        I i \<Rightarrow> str_int i
      | F r \<Rightarrow> float_repr l r
      | B b \<Rightarrow> (if b then ''True'' else ''False'')
      | S s \<Rightarrow> s
      | NaN \<Rightarrow> ''nan'')"

definition get_dummies_1d :: "lib \<Rightarrow> series \<Rightarrow> series list" where
  \<comment> \<open>one \<^verbatim>\<open>uint8\<close> indicator column per category, named \<^verbatim>\<open>prefix_level\<close>; a row whose
      value is NaN has 0 in all of them\<close>
  "get_dummies_1d l c =
     map (\<lambda>lv. \<lparr>col_name = col_name c @ ''_'' @ level_str l lv, col_dtype = UInt8,
                col_vals = map (\<lambda>v. if v \<noteq> NaN \<and> py_eq v lv then I 1 else I 0) (col_vals c)\<rparr>)
       (levels (col_vals c))"

definition get_dummies :: "lib \<Rightarrow> dataframe \<Rightarrow> dataframe" where
  \<comment> \<open>\<^verbatim>\<open>pd.get_dummies(df)\<close>: the columns that are not of object type first, unchanged and
      in their order, then the indicator columns of each object column in turn\<close>
  "get_dummies l df =
     df\<lparr>df_columns := filter (\<lambda>c. col_dtype c \<noteq> Object) (df_columns df) @
          concat (map (get_dummies_1d l) (filter (\<lambda>c. col_dtype c = Object) (df_columns df)))\<rparr>"

definition concat_axis1 :: "dataframe \<Rightarrow> series list \<Rightarrow> dataframe \<Rightarrow> dataframe" where
  \<comment> \<open>\<^verbatim>\<open>pd.concat([df[key], rest], axis=1)\<close> for two pieces of one frame \<open>df\<close>, which have
      its index: the columns side by side\<close>
  "concat_axis1 df cs rest = df\<lparr>df_columns := cs @ df_columns rest\<rparr>"

definition take_rows :: "nat list \<Rightarrow> dataframe \<Rightarrow> error + dataframe" where
  \<comment> \<open>\<^verbatim>\<open>df.take(locs)\<close>: the rows at these positions, in this order; a position beyond the
      last row raises IndexError\<close>
  "take_rows locs df =
     (if list_all (\<lambda>i. i < len df) locs
      then Inr \<lparr>df_index = map (\<lambda>i. df_index df ! i) locs,
                df_columns = map (\<lambda>c. c\<lparr>col_vals := map (\<lambda>i. col_vals c ! i) locs\<rparr>)
                               (df_columns df)\<rparr>
      else Inl IndexError)"

definition generator_of :: "nat option \<Rightarrow> nat \<Rightarrow> generator" where
  \<comment> \<open>\<^verbatim>\<open>random_state=seed\<close> makes a generator of its own; \<^verbatim>\<open>random_state=None\<close>, the
      default, uses the global one\<close>
  "generator_of random_state ent =
     (case random_state of Some sd \<Rightarrow> RandomState sd | None \<Rightarrow> Global ent)"

definition sample :: "lib \<Rightarrow> nat option \<Rightarrow> nat \<Rightarrow> dataframe \<Rightarrow> error + dataframe" where
  \<comment> \<open>\<^verbatim>\<open>df.sample(frac=1, random_state=random_state)\<close>, with the global generator in
      the state \<open>ent\<close>\<close>
  "sample l random_state ent df =
     take_rows (permutation l (generator_of random_state ent) (len df)) df"

definition slice :: "nat \<Rightarrow> nat \<Rightarrow> 'a list \<Rightarrow> 'a list" where
  \<comment> \<open>Python's \<^verbatim>\<open>xs[st:end]\<close> for indices that are not negative: empty when \<open>end \<le> st\<close>,
      cut at the end of the list\<close>
  "slice st en xs = take (en - st) (drop st xs)"

definition iloc_slice :: "nat \<Rightarrow> nat \<Rightarrow> dataframe \<Rightarrow> dataframe" where
  \<comment> \<open>\<^verbatim>\<open>df[st:end]\<close>: the rows at positions \<open>st\<close> to \<open>end - 1\<close>\<close>
  "iloc_slice st en df =
     \<lparr>df_index = slice st en (df_index df),
      df_columns = map (\<lambda>c. c\<lparr>col_vals := slice st en (col_vals c)\<rparr>) (df_columns df)\<rparr>"

definition np_split :: "dataframe \<Rightarrow> nat list \<Rightarrow> dataframe list" where
  \<comment> \<open>\<^verbatim>\<open>np.split(df, indices)\<close>: the division points are 0, the indices and the length;
      one piece between each two neighbours\<close>
  "np_split df indices =
     map (\<lambda>(st, en). iloc_slice st en df) (zip (0 # indices) (indices @ [len df]))"

subsection \<open>The stages of the script\<close>

definition base_dir :: string where
  "base_dir = ''/opt/ml/processing''"

definition raw_path :: string where
  "raw_path = base_dir @ ''/data/raw-data.csv''"

definition train_path :: string where
  "train_path = base_dir @ ''/train/train.csv''"

definition validation_path :: string where
  "validation_path = base_dir @ ''/validation/validation.csv''"

definition test_path :: string where
  "test_path = base_dir @ ''/test/test.csv''"

fun path_prefixes :: "string \<Rightarrow> string list \<Rightarrow> string list" where
  "path_prefixes acc [] = []"
| "path_prefixes acc (p # ps) = (acc @ ''/'' @ p) # path_prefixes (acc @ ''/'' @ p) ps"

fun mkdir_p :: "string list \<Rightarrow> world \<Rightarrow> world \<times> error option" where
  \<comment> \<open>\<^verbatim>\<open>Path.mkdir(parents=True, exist_ok=True)\<close> on a path, given with its ancestors,
      nearest first: an existing directory is left alone, a file in its place is an
      error, a missing parent is made first\<close>
  "mkdir_p [] w = (w, None)"
| "mkdir_p (q # ps) w =
     (if q \<in> dirs w then (w, None)
      else if q \<in> dom (files w) then (w, Some (OSError q))
      else (case mkdir_p ps w of
              (w1, Some e) \<Rightarrow> (w1, Some e)
            | (w1, None) \<Rightarrow>
                if q \<in> denied w1 then (w1, Some (OSError q))
                else (w1\<lparr>dirs := insert q (dirs w1)\<rparr>, None)))"

definition mkdir_parents :: "string \<Rightarrow> world \<Rightarrow> world \<times> error option" where
  \<comment> \<open>\<^verbatim>\<open>pathlib.Path(d).mkdir(parents=True, exist_ok=True)\<close> for an absolute path\<close>
  "mkdir_parents d w = mkdir_p (rev (path_prefixes [] (tl (py_split CHR ''/'' d)))) w"

definition dirname :: "string \<Rightarrow> string" where
  "dirname p = py_join ''/'' (butlast (py_split CHR ''/'' p))"

definition open_fails :: "string \<Rightarrow> world \<Rightarrow> bool" where
  \<comment> \<open>\<^verbatim>\<open>open(p, "w")\<close> raises when the directory of \<open>p\<close> does not exist, when \<open>p\<close> is a
      directory, or when the system refuses\<close>
  "open_fails p w \<longleftrightarrow> dirname p \<notin> dirs w \<or> p \<in> dirs w \<or> p \<in> denied w"

definition accepted :: "world \<Rightarrow> string \<Rightarrow> string \<Rightarrow> string" where
  \<comment> \<open>the bytes of \<open>content\<close> that the system takes for the file \<open>p\<close>\<close>
  "accepted w p content = (case short_write w p of None \<Rightarrow> content | Some k \<Rightarrow> take k content)"

definition write_file :: "string \<Rightarrow> string \<Rightarrow> world \<Rightarrow> world \<times> error option" where
  \<comment> \<open>open for writing, which empties the file, and write: when the system does not take
      all the bytes the file is left with those it took\<close>
  "write_file p content w =
     (if open_fails p w then (w, Some (OSError p))
      else (w\<lparr>files := (files w)(p \<mapsto> accepted w p content)\<rparr>,
            if accepted w p content = content then None else Some (OSError p)))"

definition download_file :: "string \<Rightarrow> string \<Rightarrow> string \<Rightarrow> world \<Rightarrow> world \<times> error option" where
  \<comment> \<open>\<^verbatim>\<open>s3.Bucket(bucket).download_file(key, fn)\<close>: the object is written to a temporary
      file that is renamed to \<open>fn\<close> when complete, so a failure leaves \<open>fn\<close> as it was\<close>
  "download_file bucket key fn w =
     (case s3_object w bucket key of
        None \<Rightarrow> (w, Some ClientError)
      | Some bytes \<Rightarrow>
          if open_fails fn w \<or> accepted w fn bytes \<noteq> bytes then (w, Some (OSError fn))
          else (w\<lparr>files := (files w)(fn \<mapsto> bytes)\<rparr>, None))"

definition read_csv :: "lib \<Rightarrow> string \<Rightarrow> world \<Rightarrow> error + dataframe" where
  \<comment> \<open>\<^verbatim>\<open>pd.read_csv(fn)\<close>: a file with nothing in it raises EmptyDataError\<close>
  "read_csv l fn w =
     (case files w fn of
        None \<Rightarrow> Inl (OSError fn)
      | Some bytes \<Rightarrow> if bytes = [] then Inl EmptyDataError else csv_parser l bytes)"

definition fetch :: "string \<Rightarrow> world \<Rightarrow> world \<times> error option" where
  \<comment> \<open>from the start of the script to the end of the download\<close>
  "fetch input_data w0 =
     (case mkdir_parents (base_dir @ ''/data'') w0 of
        (w1, Some e) \<Rightarrow> (w1, Some e)
      | (w1, None) \<Rightarrow>
          let parts = py_split CHR ''/'' input_data
          in if length parts \<le> 2 then (w1, Some IndexError)
             else
               let bucket = parts ! 2;
                   key = py_join ''/'' (drop 3 parts)
               in download_file bucket key raw_path w1)"

definition load :: "lib \<Rightarrow> string \<Rightarrow> world \<Rightarrow> (error + dataframe) \<times> world" where
  \<comment> \<open>from the start of the script to \<^verbatim>\<open>df = pd.read_csv(fn)\<close>\<close>
  "load l input_data w0 =
     (case fetch input_data w0 of
        (w, Some e) \<Rightarrow> (Inl e, w)
      | (w, None) \<Rightarrow> (read_csv l raw_path w, w))"

definition discard_columns :: "string list" where
  "discard_columns = [''Phone'', ''Day Charge'', ''Eve Charge'', ''Night Charge'', ''Intl Charge'']"

definition clean :: "dataframe \<Rightarrow> error + dataframe" where
  \<comment> \<open>drop "Phone", make "Area Code" an object column, drop the four charge columns\<close>
  "clean df =
     (case drop_columns [''Phone''] df of
        Inl e \<Rightarrow> Inl e
      | Inr df1 \<Rightarrow>
          (case astype_object ''Area Code'' df1 of
             Inl e \<Rightarrow> Inl e
           | Inr df2 \<Rightarrow>
               drop_columns [''Day Charge'', ''Eve Charge'', ''Night Charge'', ''Intl Charge''] df2))"

definition encode :: "lib \<Rightarrow> dataframe \<Rightarrow> error + dataframe" where
  \<comment> \<open>\<^verbatim>\<open>get_dummies\<close>, then the column "Churn?_True." in front of the frame without the
      two churn columns\<close>
  "encode l df =
     (let model_data = get_dummies l df
      in case getitem model_data ''Churn?_True.'' of
           Inl e \<Rightarrow> Inl e
         | Inr label \<Rightarrow>
             (case drop_columns [''Churn?_False.'', ''Churn?_True.''] model_data of
                Inl e \<Rightarrow> Inl e
              | Inr rest \<Rightarrow> Inr (concat_axis1 model_data label rest)))"

definition split ::
  "lib \<Rightarrow> nat option \<Rightarrow> nat \<Rightarrow> dataframe \<Rightarrow> error + dataframe \<times> dataframe \<times> dataframe" where
  \<comment> \<open>\<^verbatim>\<open>np.split(model_data.sample(frac=1, random_state=random_state),
      [int(0.7 * len(model_data)), int(0.9 * len(model_data))])\<close>\<close>
  "split l random_state ent model_data =
     (case sample l random_state ent model_data of
        Inl e \<Rightarrow> Inl e
      | Inr shuffled \<Rightarrow>
          (case np_split shuffled [int_float_mul float_0_7 (len model_data),
                                   int_float_mul float_0_9 (len model_data)] of
             [train_data, validation_data, test_data] \<Rightarrow>
               Inr (train_data, validation_data, test_data)
           | _ \<Rightarrow> Inl IndexError))"

definition csv_cell :: "lib \<Rightarrow> cell \<Rightarrow> string" where
  \<comment> \<open>a value in the file: NaN is written as nothing. (A string with a comma, a quote
      or a line break in it would be quoted; the frames the script writes have no string
      in them, \<^verbatim>\<open>get_dummies\<close> having replaced every object column.)\<close>
  "csv_cell l v = (if v = NaN then [] else level_str l v)"

definition csv_line :: "lib \<Rightarrow> cell list \<Rightarrow> string" where
  \<comment> \<open>the values of a row joined by commas, and the line terminator\<close>
  "csv_line l row = py_join '','' (map (csv_cell l) row) @ [CHR 0x0A]"

definition csv_text :: "lib \<Rightarrow> dataframe \<Rightarrow> string" where
  \<comment> \<open>\<^verbatim>\<open>header=False, index=False\<close>: no line of column names, no index field; one line
      per row\<close>
  "csv_text l df = concat (map (csv_line l) (rows_of df))"

definition to_csv :: "lib \<Rightarrow> dataframe \<Rightarrow> string \<Rightarrow> world \<Rightarrow> world \<times> error option" where
  \<comment> \<open>\<^verbatim>\<open>pd.DataFrame(df).to_csv(p, header=False, index=False)\<close>\<close>
  "to_csv l df p w = write_file p (csv_text l df) w"

definition write_splits ::
  "lib \<Rightarrow> dataframe \<times> dataframe \<times> dataframe \<Rightarrow> world \<Rightarrow> world \<times> error option" where
  \<comment> \<open>the three \<^verbatim>\<open>to_csv\<close> calls, one after the other\<close>
  "write_splits l splits w =
     (case splits of (train_data, validation_data, test_data) \<Rightarrow>
        (case to_csv l train_data train_path w of
           (w1, Some e) \<Rightarrow> (w1, Some e)
         | (w1, None) \<Rightarrow>
             (case to_csv l validation_data validation_path w1 of
                (w2, Some e) \<Rightarrow> (w2, Some e)
              | (w2, None) \<Rightarrow> to_csv l test_data test_path w2)))"

definition seed :: nat where
  "seed = 1729"

definition transform ::
  "lib \<Rightarrow> nat option \<Rightarrow> nat \<Rightarrow> dataframe \<Rightarrow> error + dataframe \<times> dataframe \<times> dataframe" where
  \<comment> \<open>everything between reading and writing\<close>
  "transform l random_state ent df =
     (case clean df of
        Inl e \<Rightarrow> Inl e
      | Inr cleaned \<Rightarrow>
          (case encode l cleaned of
             Inl e \<Rightarrow> Inl e
           | Inr model_data \<Rightarrow> split l random_state ent model_data))"

definition script :: "lib \<Rightarrow> nat option \<Rightarrow> string \<Rightarrow> world \<Rightarrow> world \<times> error option" where
  \<comment> \<open>the script with \<^verbatim>\<open>random_state=random_state\<close> in its one call of \<^verbatim>\<open>sample\<close>, run
      with \<^verbatim>\<open>--input-data input_data\<close> in the world \<open>w0\<close>: the world it leaves and the
      exception it ends with, if any\<close>
  "script l random_state input_data w0 =
     (case load l input_data w0 of
        (Inl e, w) \<Rightarrow> (w, Some e)
      | (Inr df, w) \<Rightarrow>
          (case transform l random_state (entropy w) df of
             Inl e \<Rightarrow> (w, Some e)
           | Inr splits \<Rightarrow> write_splits l splits w))"

definition main :: "lib \<Rightarrow> string \<Rightarrow> world \<Rightarrow> world \<times> error option" where
  \<comment> \<open>the script as it is: \<^verbatim>\<open>random_state=1729\<close>\<close>
  "main l input_data w0 = script l (Some seed) input_data w0"

subsection \<open>Reference values and sample inputs\<close>

text \<open>The rows in the order \<^verbatim>\<open>sample\<close> puts them, each with its index label.\<close>

definition shuffled_rows :: "lib \<Rightarrow> generator \<Rightarrow> dataframe \<Rightarrow> (nat \<times> cell list) list" where
  "shuffled_rows l g df = map (\<lambda>i. labelled_rows df ! i) (permutation l g (len df))"

text \<open>
  A small input file and the frame pandas parses it to, for running the script on:
  \<^verbatim>\<open>Account Length,Area Code,Phone,VMail Plan,Day Charge,Eve Charge,Night Charge,Intl Charge,Churn?\<close>
  followed by four customers.
\<close>

definition sample_csv :: string where
  "sample_csv =
     ''Account Length,Area Code,Phone,VMail Plan,Day Charge,Eve Charge,Night Charge,Intl Charge,Churn?'' @ [CHR 0x0A] @
     ''128,415,382-4657,yes,45.5,16.75,11.25,2.5,False.'' @ [CHR 0x0A] @
     ''107,408,371-7191,no,27.5,16.5,11.5,3.75,True.'' @ [CHR 0x0A] @
     ''137,415,358-1921,no,41.25,10.5,7.25,3.25,False.'' @ [CHR 0x0A] @
     ''84,408,375-9999,yes,50.75,5.25,8.75,1.75,True.'' @ [CHR 0x0A]"

definition sample_frame :: dataframe where
  "sample_frame =
     \<lparr>df_index = [0, 1, 2, 3],
      df_columns =
        [\<lparr>col_name = ''Account Length'', col_dtype = Int64, col_vals = [I 128, I 107, I 137, I 84]\<rparr>,
         \<lparr>col_name = ''Area Code'', col_dtype = Int64, col_vals = [I 415, I 408, I 415, I 408]\<rparr>,
         \<lparr>col_name = ''Phone'', col_dtype = Object,
            col_vals = [S ''382-4657'', S ''371-7191'', S ''358-1921'', S ''375-9999'']\<rparr>,
         \<lparr>col_name = ''VMail Plan'', col_dtype = Object,
            col_vals = [S ''yes'', S ''no'', S ''no'', S ''yes'']\<rparr>,
         \<lparr>col_name = ''Day Charge'', col_dtype = Float64,
            col_vals = [F (91 / 2), F (55 / 2), F (165 / 4), F (203 / 4)]\<rparr>,
         \<lparr>col_name = ''Eve Charge'', col_dtype = Float64,
            col_vals = [F (67 / 4), F (33 / 2), F (21 / 2), F (21 / 4)]\<rparr>,
         \<lparr>col_name = ''Night Charge'', col_dtype = Float64,
            col_vals = [F (45 / 4), F (23 / 2), F (29 / 4), F (35 / 4)]\<rparr>,
         \<lparr>col_name = ''Intl Charge'', col_dtype = Float64,
            col_vals = [F (5 / 2), F (15 / 4), F (13 / 4), F (7 / 4)]\<rparr>,
         \<lparr>col_name = ''Churn?'', col_dtype = Object,
            col_vals = [S ''False.'', S ''True.'', S ''False.'', S ''True.'']\<rparr>]\<rparr>"

definition sample_url :: string where
  "sample_url = ''s3://bucket/sagemaker/DEMO-xgboost-churn/data/RawData.csv''"

definition sample_lib :: "string \<Rightarrow> dataframe \<Rightarrow> nat list \<Rightarrow> lib" where
  \<comment> \<open>a parser that knows one file, and generators that draw \<open>p\<close> or its reverse: \<open>p\<close> for
      the seed 1729 and for the global generator in an even state\<close>
  "sample_lib bytes df p =
     \<lparr>csv_parser = (\<lambda>text. if text = bytes then Inr df else Inl ParserError),
      permutation = (\<lambda>g n. case g of
                       RandomState sd \<Rightarrow> if sd = 1729 then p else rev p
                     | Global e \<Rightarrow> if even e then p else rev p),
      float_repr = (\<lambda>r. ''0.0'')\<rparr>"

definition sample_world :: "string \<Rightarrow> world" where
  \<comment> \<open>the output directories as the processing job makes them, no file, and a store with
      one object\<close>
  "sample_world bytes =
     \<lparr>dirs = {''/opt'', ''/opt/ml'', ''/opt/ml/processing'', ''/opt/ml/processing/train'',
              ''/opt/ml/processing/validation'', ''/opt/ml/processing/test''},
      files = Map.empty,
      denied = {},
      short_write = Map.empty,
      s3_object = (\<lambda>bucket key.
        if bucket = ''bucket'' \<and> key = ''sagemaker/DEMO-xgboost-churn/data/RawData.csv''
        then Some bytes else None),
      entropy = 0\<rparr>"

definition ten_rows :: dataframe where
  \<comment> \<open>an encoded frame of ten rows: the label and one feature\<close>
  "ten_rows =
     \<lparr>df_index = [0, 1, 2, 3, 4, 5, 6, 7, 8, 9],
      df_columns =
        [\<lparr>col_name = ''Churn?_True.'', col_dtype = UInt8,
            col_vals = [I 0, I 1, I 0, I 1, I 0, I 0, I 1, I 0, I 0, I 1]\<rparr>,
         \<lparr>col_name = ''Account Length'', col_dtype = Int64,
            col_vals = [I 128, I 107, I 137, I 84, I 75, I 118, I 121, I 147, I 117, I 141]\<rparr>]\<rparr>"

definition schema :: "dataframe \<Rightarrow> (string \<times> dtype) list" where
  \<comment> \<open>the columns of a frame, in order: name and type\<close>
  "schema df = map (\<lambda>c. (col_name c, col_dtype c)) (df_columns df)"

definition indicator :: "cell \<Rightarrow> cell \<Rightarrow> cell" where
  \<comment> \<open>the value of the indicator column of category \<open>lv\<close> in a row whose value is \<open>v\<close>\<close>
  "indicator lv v = (if v \<noteq> NaN \<and> py_eq v lv then I 1 else I 0)"

definition sample_cleaned :: dataframe where
  \<comment> \<open>\<open>sample_frame\<close> after \<open>clean\<close>\<close>
  "sample_cleaned =
     \<lparr>df_index = [0, 1, 2, 3],
      df_columns =
        [\<lparr>col_name = ''Account Length'', col_dtype = Int64, col_vals = [I 128, I 107, I 137, I 84]\<rparr>,
         \<lparr>col_name = ''Area Code'', col_dtype = Object, col_vals = [I 415, I 408, I 415, I 408]\<rparr>,
         \<lparr>col_name = ''VMail Plan'', col_dtype = Object,
            col_vals = [S ''yes'', S ''no'', S ''no'', S ''yes'']\<rparr>,
         \<lparr>col_name = ''Churn?'', col_dtype = Object,
            col_vals = [S ''False.'', S ''True.'', S ''False.'', S ''True.'']\<rparr>]\<rparr>"

definition sample_encoded :: dataframe where
  \<comment> \<open>\<open>sample_cleaned\<close> after \<open>encode\<close>\<close>
  "sample_encoded =
     \<lparr>df_index = [0, 1, 2, 3],
      df_columns =
        [\<lparr>col_name = ''Churn?_True.'', col_dtype = UInt8, col_vals = [I 0, I 1, I 0, I 1]\<rparr>,
         \<lparr>col_name = ''Account Length'', col_dtype = Int64, col_vals = [I 128, I 107, I 137, I 84]\<rparr>,
         \<lparr>col_name = ''Area Code_408'', col_dtype = UInt8, col_vals = [I 0, I 1, I 0, I 1]\<rparr>,
         \<lparr>col_name = ''Area Code_415'', col_dtype = UInt8, col_vals = [I 1, I 0, I 1, I 0]\<rparr>,
         \<lparr>col_name = ''VMail Plan_no'', col_dtype = UInt8, col_vals = [I 0, I 1, I 1, I 0]\<rparr>,
         \<lparr>col_name = ''VMail Plan_yes'', col_dtype = UInt8, col_vals = [I 1, I 0, I 0, I 1]\<rparr>]\<rparr>"

text \<open>Two customers only, and the same file without its "Phone" column.\<close>

definition small_csv :: string where
  "small_csv =
     ''Account Length,Area Code,Phone,VMail Plan,Day Charge,Eve Charge,Night Charge,Intl Charge,Churn?'' @ [CHR 0x0A] @
     ''128,415,382-4657,yes,45.5,16.75,11.25,2.5,False.'' @ [CHR 0x0A] @
     ''107,408,371-7191,no,27.5,16.5,11.5,3.75,True.'' @ [CHR 0x0A]"

definition small_frame :: dataframe where
  "small_frame =
     \<lparr>df_index = [0, 1],
      df_columns =
        [\<lparr>col_name = ''Account Length'', col_dtype = Int64, col_vals = [I 128, I 107]\<rparr>,
         \<lparr>col_name = ''Area Code'', col_dtype = Int64, col_vals = [I 415, I 408]\<rparr>,
         \<lparr>col_name = ''Phone'', col_dtype = Object, col_vals = [S ''382-4657'', S ''371-7191'']\<rparr>,
         \<lparr>col_name = ''VMail Plan'', col_dtype = Object, col_vals = [S ''yes'', S ''no'']\<rparr>,
         \<lparr>col_name = ''Day Charge'', col_dtype = Float64, col_vals = [F (91 / 2), F (55 / 2)]\<rparr>,
         \<lparr>col_name = ''Eve Charge'', col_dtype = Float64, col_vals = [F (67 / 4), F (33 / 2)]\<rparr>,
         \<lparr>col_name = ''Night Charge'', col_dtype = Float64, col_vals = [F (45 / 4), F (23 / 2)]\<rparr>,
         \<lparr>col_name = ''Intl Charge'', col_dtype = Float64, col_vals = [F (5 / 2), F (15 / 4)]\<rparr>,
         \<lparr>col_name = ''Churn?'', col_dtype = Object, col_vals = [S ''False.'', S ''True.'']\<rparr>]\<rparr>"

definition small_encoded :: dataframe where
  \<comment> \<open>\<open>small_frame\<close> after \<open>clean\<close> and \<open>encode\<close>\<close>
  "small_encoded =
     \<lparr>df_index = [0, 1],
      df_columns =
        [\<lparr>col_name = ''Churn?_True.'', col_dtype = UInt8, col_vals = [I 0, I 1]\<rparr>,
         \<lparr>col_name = ''Account Length'', col_dtype = Int64, col_vals = [I 128, I 107]\<rparr>,
         \<lparr>col_name = ''Area Code_408'', col_dtype = UInt8, col_vals = [I 0, I 1]\<rparr>,
         \<lparr>col_name = ''Area Code_415'', col_dtype = UInt8, col_vals = [I 1, I 0]\<rparr>,
         \<lparr>col_name = ''VMail Plan_no'', col_dtype = UInt8, col_vals = [I 0, I 1]\<rparr>,
         \<lparr>col_name = ''VMail Plan_yes'', col_dtype = UInt8, col_vals = [I 1, I 0]\<rparr>]\<rparr>"

definition no_phone_csv :: string where
  "no_phone_csv =
     ''Account Length,Area Code,VMail Plan,Day Charge,Eve Charge,Night Charge,Intl Charge,Churn?'' @ [CHR 0x0A] @
     ''128,415,yes,45.5,16.75,11.25,2.5,False.'' @ [CHR 0x0A] @
     ''107,408,no,27.5,16.5,11.5,3.75,True.'' @ [CHR 0x0A]"

definition no_phone_frame :: dataframe where
  "no_phone_frame =
     \<lparr>df_index = [0, 1],
      df_columns =
        [\<lparr>col_name = ''Account Length'', col_dtype = Int64, col_vals = [I 128, I 107]\<rparr>,
         \<lparr>col_name = ''Area Code'', col_dtype = Int64, col_vals = [I 415, I 408]\<rparr>,
         \<lparr>col_name = ''VMail Plan'', col_dtype = Object, col_vals = [S ''yes'', S ''no'']\<rparr>,
         \<lparr>col_name = ''Day Charge'', col_dtype = Float64, col_vals = [F (91 / 2), F (55 / 2)]\<rparr>,
         \<lparr>col_name = ''Eve Charge'', col_dtype = Float64, col_vals = [F (67 / 4), F (33 / 2)]\<rparr>,
         \<lparr>col_name = ''Night Charge'', col_dtype = Float64, col_vals = [F (45 / 4), F (23 / 2)]\<rparr>,
         \<lparr>col_name = ''Intl Charge'', col_dtype = Float64, col_vals = [F (5 / 2), F (15 / 4)]\<rparr>,
         \<lparr>col_name = ''Churn?'', col_dtype = Object, col_vals = [S ''False.'', S ''True.'']\<rparr>]\<rparr>"

definition train_only_world :: "string \<Rightarrow> world" where
  \<comment> \<open>a world in which the first of the three output directories exists and the other
      two do not\<close>
  "train_only_world bytes =
     (sample_world bytes)\<lparr>dirs := {''/opt'', ''/opt/ml'', ''/opt/ml/processing'',
        ''/opt/ml/processing/train''}\<rparr>"

definition stale_world :: "string \<Rightarrow> world" where
  \<comment> \<open>another world: a train file left by an earlier run, and the global generator in
      another state\<close>
  "stale_world bytes = (sample_world bytes)\<lparr>files := [train_path \<mapsto> ''1,99''], entropy := 1\<rparr>"

definition upstream ::
  "lib \<Rightarrow> nat option \<Rightarrow> string \<Rightarrow> world \<Rightarrow> error + dataframe \<times> dataframe \<times> dataframe" where
  \<comment> \<open>what the script has computed when it reaches the first \<^verbatim>\<open>to_csv\<close>: an exception
      raised before, or the three frames to write\<close>
  "upstream l random_state input_data w0 =
     (case load l input_data w0 of
        (Inl e, w) \<Rightarrow> Inl e
      | (Inr df, w) \<Rightarrow> transform l random_state (entropy w) df)"

text \<open>What the operations on files and directories leave alone.\<close>

definition same_but_files_dirs :: "world \<Rightarrow> world \<Rightarrow> bool" where
  "same_but_files_dirs w w' \<longleftrightarrow> denied w' = denied w \<and> short_write w' = short_write w \<and>
     s3_object w' = s3_object w \<and> entropy w' = entropy w \<and> dirs w \<subseteq> dirs w'"

text \<open>
  Reading an output file back, as the training job does: the lines, each cut at its
  commas. There is no header line to skip and no index field to drop.
\<close>

definition read_back :: "string \<Rightarrow> string list list" where
  "read_back text = map (py_split CHR '','') (butlast (py_split (CHR 0x0A) text))"

text \<open>
  What the parser guarantees of a frame beyond \<open>wf_df\<close>: a string is found in object
  columns only. And what \<^verbatim>\<open>repr\<close> guarantees: the text of a float has no comma and no
  line feed in it.
\<close>

fun is_str :: "cell \<Rightarrow> bool" where
  "is_str (S s) = True"
| "is_str v = False"

definition typed_df :: "dataframe \<Rightarrow> bool" where
  "typed_df df \<longleftrightarrow>
     list_all (\<lambda>c. col_dtype c = Object \<or> list_all (\<lambda>v. \<not> is_str v) (col_vals c)) (df_columns df)"

definition plain_repr :: "lib \<Rightarrow> bool" where
  "plain_repr l \<longleftrightarrow> (\<forall>r. CHR '','' \<notin> set (float_repr l r) \<and> CHR 0x0A \<notin> set (float_repr l r))"

definition csv_record :: "lib \<Rightarrow> dataframe \<Rightarrow> nat \<Rightarrow> string list" where
  \<comment> \<open>the fields of the line of the row at position \<open>i\<close> of a frame: one per column, in
      the order of the columns\<close>
  "csv_record l df i = map (\<lambda>c. csv_cell l (col_vals c ! i)) (df_columns df)"

section \<open>Properties\<close>

subsection \<open>Rounding to a double is monotone\<close>

lemma bit_length_bounds:
  assumes "0 < p"
  shows "2 ^ (bit_length p - 1) \<le> p" and "p < 2 ^ bit_length p"
  using floorlog_bounds[of p 2] assms by (simp_all add: bit_length_def)

lemma bit_length_mono: "x \<le> y \<Longrightarrow> bit_length x \<le> bit_length y"
  by (simp add: bit_length_def floorlog_mono)

lemma round_double_between:
  "p div 2 ^ (bit_length p - 53) * 2 ^ (bit_length p - 53) \<le> round_double p"
  "round_double p \<le> (p div 2 ^ (bit_length p - 53) + 1) * 2 ^ (bit_length p - 53)"
  by (simp_all add: round_double_def Let_def)

lemma round_double_exact: "bit_length p \<le> 53 \<Longrightarrow> round_double p = p"
  by (simp add: round_double_def)

lemma round_double_upper: "round_double p \<le> 2 ^ bit_length p"
proof (cases "p = 0 \<or> bit_length p \<le> 53")
  case True
  then show ?thesis
    using bit_length_bounds(2)[of p]
    by (cases "p = 0") (auto simp: round_double_exact round_double_def intro: less_imp_le)
next
  case False
  define s where "s = bit_length p - 53"
  define k :: nat where "k = 2 ^ 53"
  from False have bl: "bit_length p = 53 + s" by (simp add: s_def)
  have "p < 2 ^ bit_length p" using False bit_length_bounds(2) by simp
  then have "p < k * 2 ^ s" unfolding bl power_add k_def .
  then have "p div 2 ^ s < k" by (simp add: less_mult_imp_div_less)
  then have "p div 2 ^ s + 1 \<le> k" by simp
  then have "(p div 2 ^ s + 1) * 2 ^ s \<le> k * 2 ^ s" by (rule mult_le_mono1)
  moreover have "round_double p \<le> (p div 2 ^ s + 1) * 2 ^ s"
    unfolding s_def by (rule round_double_between(2))
  moreover have "2 ^ bit_length p = k * 2 ^ s" unfolding bl power_add k_def ..
  ultimately show ?thesis by linarith
qed

lemma round_double_lower: 
  assumes "0 < p" shows "2 ^ (bit_length p - 1) \<le> round_double p"
proof (cases "bit_length p \<le> 53")
  case True
  then show ?thesis using bit_length_bounds(1)[OF assms] by (simp add: round_double_exact)
next
  case False
  define s where "s = bit_length p - 53"
  define k :: nat where "k = 2 ^ 52"
  from False have bl: "bit_length p - 1 = 52 + s" by (simp add: s_def)
  have "2 ^ (bit_length p - 1) \<le> p" using assms by (rule bit_length_bounds(1))
  then have "k * 2 ^ s \<le> p" unfolding bl power_add k_def .
  then have "k \<le> p div 2 ^ s" by (simp add: less_eq_div_iff_mult_less_eq)
  then have "k * 2 ^ s \<le> p div 2 ^ s * 2 ^ s" by (rule mult_le_mono1)
  moreover have "p div 2 ^ s * 2 ^ s \<le> round_double p"
    unfolding s_def by (rule round_double_between(1))
  moreover have "2 ^ (bit_length p - 1) = k * 2 ^ s" unfolding bl power_add k_def ..
  ultimately show ?thesis by linarith
qed

lemma round_double_mono:
  assumes "x \<le> y" shows "round_double x \<le> round_double y"
proof (cases "x = 0")
  case True
  then show ?thesis by (simp add: round_double_def)
next
  case False
  then have xp: "0 < x" and yp: "0 < y" using assms by simp_all
  show ?thesis
  proof (cases "bit_length x = bit_length y")
    case False
    then have "bit_length x < bit_length y" using bit_length_mono[OF assms] by simp
    then have "(2::nat) ^ bit_length x \<le> 2 ^ (bit_length y - 1)"
      by (intro power_increasing) simp_all
    then show ?thesis
      using round_double_upper[of x] round_double_lower[OF yp] by linarith
  next
    case True
    define s where "s = bit_length y - 53"
    define d where "d = (2::nat) ^ s"
    have sx: "bit_length x - 53 = s" by (simp add: s_def True)
    have qle: "x div d \<le> y div d" using assms by (rule div_le_mono)
    show ?thesis
    proof (cases "x div d = y div d")
      case False
      then have "x div d + 1 \<le> y div d" using qle by simp
      then have "(x div d + 1) * d \<le> y div d * d" by (rule mult_le_mono1)
      then show ?thesis
        using round_double_between(2)[of x] round_double_between(1)[of y]
        by (simp add: sx s_def[symmetric] d_def[symmetric])
    next
      case q: True
      have "x = x div d * d + x mod d" "y = y div d * d + y mod d" by simp_all
      then have rle: "x mod d \<le> y mod d" using assms q
        by (metis add_le_cancel_left)
      show ?thesis
        using rle q 
        by (auto simp add: round_double_def Let_def sx s_def[symmetric] d_def[symmetric])
    qed
  qed
qed

lemma int_float_mul_mono: "m \<le> m' \<Longrightarrow> int_float_mul m n \<le> int_float_mul m' n"
  unfolding int_float_mul_def
  by (intro div_le_mono round_double_mono mult_le_mono1)

lemma split_points_ordered: "int_float_mul float_0_7 n \<le> int_float_mul float_0_9 n"
  by (rule int_float_mul_mono) (simp add: float_0_7_def float_0_9_def)

text \<open>The truncated double product is not always \<open>\<lfloor>7 * n / 10\<rfloor>\<close>: \<^verbatim>\<open>0.7 * 90\<close> is just below 63.\<close>

lemma int_float_mul_90: "int_float_mul float_0_7 90 = 62"
  by (simp add: int_float_mul_def float_0_7_def round_double_def bit_length_def
      compute_floorlog Let_def)

lemma int_float_mul_10:
  "int_float_mul float_0_7 10 = 7" "int_float_mul float_0_9 10 = 9"
  by (simp_all add: int_float_mul_def float_0_7_def float_0_9_def round_double_def bit_length_def
      compute_floorlog Let_def)

text \<open>The product is never more than \<open>n\<close> for a factor below 1.\<close>

lemma round_double_relative: "2 ^ 53 * round_double x \<le> (2 ^ 53 + 1) * x"
proof (cases "bit_length x \<le> 53")
  case True
  then show ?thesis by (simp add: round_double_exact)
next
  case False
  define s where "s = bit_length x - 53"
  define d :: nat where "d = 2 ^ s"
  define k :: nat where "k = 2 ^ 52"
  from False have bl: "bit_length x - 1 = 52 + s" by (simp add: s_def)
  from False have xp: "0 < x" by (cases "x = 0") (simp_all add: bit_length_def floorlog_def)
  have "2 ^ (bit_length x - 1) \<le> x" using xp by (rule bit_length_bounds(1))
  then have kd: "k * d \<le> x" unfolding bl power_add k_def d_def .
  have x: "x = x div d * d + x mod d" by simp
  have r: "round_double x = (if d < 2 * (x mod d) \<or> (2 * (x mod d) = d \<and> odd (x div d))
      then (x div d + 1) * d else x div d * d)"
    by (simp add: round_double_def Let_def s_def[symmetric] d_def[symmetric])
  have "2 * round_double x \<le> 2 * x + d"
  proof (cases "d < 2 * (x mod d) \<or> (2 * (x mod d) = d \<and> odd (x div d))")
    case True
    then have "round_double x = (x div d + 1) * d" unfolding r by (simp only: if_True)
    then have "round_double x = x div d * d + d" by simp
    moreover have "d \<le> 2 * (x mod d)" using True by auto
    ultimately show ?thesis using x by linarith
  next
    case False
    then have "round_double x = x div d * d" unfolding r by (simp only: if_False)
    then show ?thesis using x by linarith
  qed
  then have "k * (2 * round_double x) \<le> k * (2 * x + d)" by (rule mult_le_mono2)
  then have "2 * k * round_double x \<le> 2 * k * x + x"
    using kd by (simp add: algebra_simps)
  moreover have "(2::nat) ^ 53 = 2 * k" by (simp add: k_def)
  ultimately show ?thesis by (simp add: algebra_simps)
qed

lemma int_float_mul_le:
  assumes "(2 ^ 53 + 1) * ((2 ^ 53 + 1) * m) \<le> 2 ^ 53 * (2 ^ 53 * 2 ^ 53)"
  shows "int_float_mul m n \<le> n"
proof -
  define k :: nat where "k = 2 ^ 53"
  define N where "N = round_double n"
  define P where "P = round_double (m * N)"
  have a: "k * P \<le> (k + 1) * (m * N)" unfolding k_def P_def by (rule round_double_relative)
  have b: "k * N \<le> (k + 1) * n" unfolding k_def N_def by (rule round_double_relative)
  have c: "(k + 1) * ((k + 1) * m) \<le> k * (k * k)" using assms by (simp only: k_def)
  have "k * (k * P) \<le> k * ((k + 1) * (m * N))" using a by (rule mult_le_mono2)
  also have "\<dots> = ((k + 1) * m) * (k * N)" by (simp only: mult_ac)
  also have "\<dots> \<le> ((k + 1) * m) * ((k + 1) * n)" using b by (rule mult_le_mono2)
  also have "\<dots> = ((k + 1) * ((k + 1) * m)) * n" by (simp only: mult_ac)
  also have "\<dots> \<le> (k * (k * k)) * n" using c by (rule mult_le_mono1)
  also have "\<dots> = k * (k * (k * n))" by (simp only: mult_ac)
  finally have "k * (k * P) \<le> k * (k * (k * n))" .
  moreover have "0 < k" by (simp add: k_def)
  ultimately have "P \<le> k * n" by simp
  then have "P div k \<le> n" using \<open>0 < k\<close>
    by (metis div_le_mono nonzero_mult_div_cancel_left less_numeral_extra(3))
  then show ?thesis by (simp add: int_float_mul_def P_def N_def k_def)
qed

lemma split_points_in_range:
  "int_float_mul float_0_7 n \<le> int_float_mul float_0_9 n" "int_float_mul float_0_9 n \<le> n"
proof -
  show "int_float_mul float_0_7 n \<le> int_float_mul float_0_9 n" by (rule split_points_ordered)
  show "int_float_mul float_0_9 n \<le> n"
    by (rule int_float_mul_le) (simp add: float_0_9_def)
qed

subsection \<open>Rows of a frame, of a selection and of a slice\<close>

lemma is_permutation_facts:
  assumes "is_permutation p n"
  shows "length p = n" and "set p = {0..<n}" and "distinct p"
proof -
  from assms have m: "mset p = mset [0..<n]" by (simp add: is_permutation_def)
  show "length p = n" using mset_eq_length[OF m] by simp
  show "set p = {0..<n}" using mset_eq_setD[OF m] by simp
  show "distinct p" using mset_eq_imp_distinct_iff[OF m] by simp
qed

lemma len_take_rows: "take_rows p df = Inr sh \<Longrightarrow> len sh = length p"
  by (auto simp: take_rows_def len_def split: if_splits)

lemma take_rows_ok:
  assumes "is_permutation p (len df)"
  shows "take_rows p df =
    Inr \<lparr>df_index = map (\<lambda>i. df_index df ! i) p,
         df_columns = map (\<lambda>c. c\<lparr>col_vals := map (\<lambda>i. col_vals c ! i) p\<rparr>) (df_columns df)\<rparr>"
  using is_permutation_facts(2)[OF assms] by (simp add: take_rows_def list_all_iff)

lemma wf_df_cols: "wf_df df \<Longrightarrow> c \<in> set (df_columns df) \<Longrightarrow> length (col_vals c) = len df"
  by (simp add: wf_df_def list_all_iff len_def)

lemma length_rows_of [simp]: "length (rows_of df) = len df"
  by (simp add: rows_of_def)

lemma length_labelled_rows [simp]: "length (labelled_rows df) = len df"
  by (simp add: labelled_rows_def len_def[symmetric])

lemma nth_rows_of: "i < len df \<Longrightarrow> rows_of df ! i = map (\<lambda>c. col_vals c ! i) (df_columns df)"
  by (simp add: rows_of_def)

lemma nth_labelled_rows:
  "i < len df \<Longrightarrow> labelled_rows df ! i = (df_index df ! i, map (\<lambda>c. col_vals c ! i) (df_columns df))"
  by (simp add: labelled_rows_def nth_rows_of len_def[symmetric])

lemma labelled_rows_take_rows:
  assumes "is_permutation p (len df)" and "take_rows p df = Inr sh"
  shows "labelled_rows sh = map (\<lambda>i. labelled_rows df ! i) p"
proof (rule nth_equalityI)
  have sh: "sh = \<lparr>df_index = map (\<lambda>i. df_index df ! i) p,
         df_columns = map (\<lambda>c. c\<lparr>col_vals := map (\<lambda>i. col_vals c ! i) p\<rparr>) (df_columns df)\<rparr>"
    using take_rows_ok[OF assms(1)] assms(2) by simp
  have n: "len sh = length p" using assms(2) by (rule len_take_rows)
  show "length (labelled_rows sh) = length (map (\<lambda>i. labelled_rows df ! i) p)"
    by (simp add: n)
  fix i assume "i < length (labelled_rows sh)"
  then have i: "i < length p" by (simp add: n)
  then have pi: "p ! i < len df" using is_permutation_facts(2)[OF assms(1)] nth_mem[OF i] by auto
  have "labelled_rows sh ! i = (df_index sh ! i, map (\<lambda>c. col_vals c ! i) (df_columns sh))"
    using i n by (simp add: nth_labelled_rows)
  also have "\<dots> = (df_index df ! (p ! i), map (\<lambda>c. col_vals c ! (p ! i)) (df_columns df))"
    using i by (simp add: sh comp_def)
  also have "\<dots> = labelled_rows df ! (p ! i)" using pi by (simp add: nth_labelled_rows)
  finally show "labelled_rows sh ! i = map (\<lambda>i. labelled_rows df ! i) p ! i" using i by simp
qed

lemma len_iloc_slice: "len (iloc_slice st en df) = length (slice st en (df_index df))"
  by (simp add: iloc_slice_def len_def)

lemma length_slice: "length (slice st en xs) = min (en - st) (length xs - st)"
  by (simp add: slice_def)

lemma len_iloc_slice_min: "len (iloc_slice st en df) = min (en - st) (len df - st)"
  by (simp add: iloc_slice_def len_def length_slice)

lemma nth_slice:
  assumes "i < length (slice st en xs)"
  shows "slice st en xs ! i = xs ! (st + i)"
proof -
  from assms have "i < en - st" and "st \<le> length xs" by (auto simp: slice_def)
  then show ?thesis by (simp add: slice_def)
qed

lemma labelled_rows_iloc_slice:
  assumes "wf_df df"
  shows "labelled_rows (iloc_slice st en df) = slice st en (labelled_rows df)"
proof (rule nth_equalityI)
  show l: "length (labelled_rows (iloc_slice st en df)) = length (slice st en (labelled_rows df))"
    by (simp add: len_iloc_slice_min length_slice)
  fix i assume "i < length (labelled_rows (iloc_slice st en df))"
  then have i: "i < len (iloc_slice st en df)" by simp
  then have i1: "i < length (slice st en (df_index df))" by (simp add: len_iloc_slice)
  then have i2: "i < en - st" "st + i < len df" by (auto simp: length_slice len_def)
  have c: "slice st en (col_vals c) ! i = col_vals c ! (st + i)" if "c \<in> set (df_columns df)" for c
    using wf_df_cols[OF assms that] i2 by (simp add: nth_slice length_slice)
  have "labelled_rows (iloc_slice st en df) ! i =
      (df_index df ! (st + i), map (\<lambda>c. col_vals c ! (st + i)) (df_columns df))"
    using i i1 c by (simp add: nth_labelled_rows) (simp add: iloc_slice_def nth_slice comp_def)
  also have "\<dots> = labelled_rows df ! (st + i)" using i2 by (simp add: nth_labelled_rows)
  also have "\<dots> = slice st en (labelled_rows df) ! i"
    using i l by (simp add: nth_slice)
  finally show "labelled_rows (iloc_slice st en df) ! i = slice st en (labelled_rows df) ! i" .
qed

subsection \<open>The split\<close>

lemma wf_df_take_rows:
  assumes "wf_df df" and "is_permutation p (len df)" and "take_rows p df = Inr sh"
  shows "wf_df sh"
proof -
  have sh: "sh = \<lparr>df_index = map (\<lambda>i. df_index df ! i) p,
         df_columns = map (\<lambda>c. c\<lparr>col_vals := map (\<lambda>i. col_vals c ! i) p\<rparr>) (df_columns df)\<rparr>"
    using take_rows_ok[OF assms(2)] assms(3) by simp
  have "inj_on (\<lambda>i. df_index df ! i) (set p)"
    using is_permutation_facts(2)[OF assms(2)] assms(1)
    by (auto simp: inj_on_def wf_df_def len_def nth_eq_iff_index_eq)
  then have "distinct (map (\<lambda>i. df_index df ! i) p)"
    using is_permutation_facts(3)[OF assms(2)] by (simp add: distinct_map)
  then show ?thesis by (simp add: sh wf_df_def list_all_iff)
qed

lemma np_split_two:
  "np_split df [a, b] = [iloc_slice 0 a df, iloc_slice a b df, iloc_slice b (len df) df]"
  by (simp add: np_split_def)

lemma generator_of_Some: "generator_of (Some sd) ent = RandomState sd"
  by (simp add: generator_of_def)

lemma split_ok:
  assumes g: "generator_of rs ent = g" and p: "is_permutation (permutation l g (len df)) (len df)"
  obtains sh where "sample l rs ent df = Inr sh"
    and "split l rs ent df = Inr (iloc_slice 0 (int_float_mul float_0_7 (len df)) sh,
           iloc_slice (int_float_mul float_0_7 (len df)) (int_float_mul float_0_9 (len df)) sh,
           iloc_slice (int_float_mul float_0_9 (len df)) (len sh) sh)"
    and "len sh = len df"
proof -
  obtain sh where sh: "sample l rs ent df = Inr sh"
    using take_rows_ok[OF p] by (simp add: sample_def g)
  have "len sh = len df"
    using len_take_rows[of "permutation l g (len df)" df sh] sh is_permutation_facts(1)[OF p]
    by (simp add: sample_def g)
  moreover have "split l rs ent df = Inr (iloc_slice 0 (int_float_mul float_0_7 (len df)) sh,
           iloc_slice (int_float_mul float_0_7 (len df)) (int_float_mul float_0_9 (len df)) sh,
           iloc_slice (int_float_mul float_0_9 (len df)) (len sh) sh)"
    by (simp add: split_def sh np_split_two)
  ultimately show thesis using sh that by blast
qed

lemma slice_from_0: "slice 0 a xs = take a xs"
  by (simp add: slice_def)

lemma slice_to_end: "slice b (length xs) xs = drop b xs"
  by (simp add: slice_def)

lemma blocks_append:
  assumes "a \<le> b"
  shows "take a xs @ slice a b xs @ drop b xs = xs"
proof -
  have "drop (b - a) (drop a xs) = drop b xs" using assms by simp
  then have "slice a b xs @ drop b xs = drop a xs"
    unfolding slice_def by (metis append_take_drop_id)
  then show ?thesis by simp
qed

lemma split_labelled_rows:
  assumes "wf_df df" and "generator_of rs ent = g"
    and "is_permutation (permutation l g (len df)) (len df)"
  obtains tr va te where "split l rs ent df = Inr (tr, va, te)"
    and "labelled_rows tr = take (int_float_mul float_0_7 (len df)) (shuffled_rows l g df)"
    and "labelled_rows va = slice (int_float_mul float_0_7 (len df))
           (int_float_mul float_0_9 (len df)) (shuffled_rows l g df)"
    and "labelled_rows te = drop (int_float_mul float_0_9 (len df)) (shuffled_rows l g df)"
proof -
  obtain sh where sh: "sample l rs ent df = Inr sh"
    and sp: "split l rs ent df = Inr (iloc_slice 0 (int_float_mul float_0_7 (len df)) sh,
           iloc_slice (int_float_mul float_0_7 (len df)) (int_float_mul float_0_9 (len df)) sh,
           iloc_slice (int_float_mul float_0_9 (len df)) (len sh) sh)"
    and n: "len sh = len df"
    using split_ok[OF assms(2,3)] by blast
  have wf: "wf_df sh" using wf_df_take_rows[OF assms(1,3)] sh by (simp add: sample_def assms(2))
  have rows: "labelled_rows sh = shuffled_rows l g df"
    using labelled_rows_take_rows[OF assms(3)] sh
    by (simp add: sample_def shuffled_rows_def assms(2))
  have "length (shuffled_rows l g df) = len sh" using rows[symmetric] by simp
  then have e: "slice (int_float_mul float_0_9 (len df)) (len sh) (shuffled_rows l g df) =
      drop (int_float_mul float_0_9 (len df)) (shuffled_rows l g df)"
    using slice_to_end[of _ "shuffled_rows l g df"] by simp
  show thesis
    by (rule that[OF sp]) (simp_all add: labelled_rows_iloc_slice[OF wf] rows slice_from_0 e)
qed

lemma mset_shuffled_rows:
  assumes "is_permutation (permutation l g (len df)) (len df)"
  shows "mset (shuffled_rows l g df) = mset (labelled_rows df)"
proof -
  have "mset (shuffled_rows l g df) =
      image_mset (\<lambda>i. labelled_rows df ! i) (mset (permutation l g (len df)))"
    by (simp add: shuffled_rows_def)
  also have "\<dots> = image_mset (\<lambda>i. labelled_rows df ! i) (mset [0..<len df])"
    using assms by (simp only: is_permutation_def)
  also have "\<dots> = mset (map (\<lambda>i. labelled_rows df ! i) [0..<length (labelled_rows df)])"
    by (simp only: mset_map length_labelled_rows)
  also have "\<dots> = mset (labelled_rows df)" by (simp only: map_nth)
  finally show ?thesis .
qed

lemma index_of_labelled_rows: "map fst (labelled_rows df) = df_index df"
  by (simp add: labelled_rows_def len_def)

lemma rows_of_labelled_rows: "map snd (labelled_rows df) = rows_of df"
  by (simp add: labelled_rows_def len_def)

lemma index_shuffled_rows:
  assumes "is_permutation (permutation l g (len df)) (len df)"
  shows "map fst (shuffled_rows l g df) = map (\<lambda>i. df_index df ! i) (permutation l g (len df))"
  using is_permutation_facts(2)[OF assms] by (simp add: shuffled_rows_def nth_labelled_rows)

text \<open>
  C1: \<open>split\<close> first puts the rows in the order of the seeded permutation and then cuts
  that sequence at \<^verbatim>\<open>int(0.7 * n)\<close> and \<^verbatim>\<open>int(0.9 * n)\<close>, the truncated double products.
  Train, validation and test are the three blocks of the shuffled sequence, in this order,
  each in the shuffled order; together they are the whole shuffled sequence. The first cut
  is not after the second, and the second is within the sequence.
\<close>

theorem split_shuffles_then_slices:
  assumes "wf_df df" and "is_permutation (permutation l (RandomState sd) (len df)) (len df)"
  shows "\<exists>tr va te. split l (Some sd) ent df = Inr (tr, va, te) \<and>
    labelled_rows tr = take (int_float_mul float_0_7 (len df)) (shuffled_rows l (RandomState sd) df) \<and>
    labelled_rows va = take (int_float_mul float_0_9 (len df) - int_float_mul float_0_7 (len df))
      (drop (int_float_mul float_0_7 (len df)) (shuffled_rows l (RandomState sd) df)) \<and>
    labelled_rows te = drop (int_float_mul float_0_9 (len df)) (shuffled_rows l (RandomState sd) df) \<and>
    labelled_rows tr @ labelled_rows va @ labelled_rows te = shuffled_rows l (RandomState sd) df \<and>
    int_float_mul float_0_7 (len df) \<le> int_float_mul float_0_9 (len df) \<and>
    int_float_mul float_0_9 (len df) \<le> length (shuffled_rows l (RandomState sd) df)"
proof -
  obtain tr va te where sp: "split l (Some sd) ent df = Inr (tr, va, te)"
    and tr: "labelled_rows tr = take (int_float_mul float_0_7 (len df)) (shuffled_rows l (RandomState sd) df)"
    and va: "labelled_rows va = slice (int_float_mul float_0_7 (len df))
           (int_float_mul float_0_9 (len df)) (shuffled_rows l (RandomState sd) df)"
    and te: "labelled_rows te = drop (int_float_mul float_0_9 (len df)) (shuffled_rows l (RandomState sd) df)"
    using split_labelled_rows[OF assms(1) generator_of_Some assms(2)] by blast
  have "labelled_rows tr @ labelled_rows va @ labelled_rows te = shuffled_rows l (RandomState sd) df"
    unfolding tr va te by (rule blocks_append[OF split_points_ordered])
  moreover have "length (shuffled_rows l (RandomState sd) df) = len df"
    using is_permutation_facts(1)[OF assms(2)] by (simp add: shuffled_rows_def)
  ultimately show ?thesis
    using sp tr va te split_points_in_range[of "len df"] by (simp add: slice_def)
qed

theorem split_shuffles_then_slices_witness:
  "wf_df sample_encoded \<and>
   is_permutation (permutation (sample_lib sample_csv sample_frame [0, 3, 2, 1]) (RandomState seed) (len sample_encoded))
     (len sample_encoded) \<and>
   (\<exists>tr va te. split (sample_lib sample_csv sample_frame [0, 3, 2, 1]) (Some seed) 0 sample_encoded = Inr (tr, va, te) \<and>
      map fst (labelled_rows tr) = [0, 3] \<and> map fst (labelled_rows va) = [2] \<and>
      map fst (labelled_rows te) = [1])"
proof -
  let ?l = "sample_lib sample_csv sample_frame [0, 3, 2, 1]"
  have n: "len sample_encoded = 4" by (simp add: len_def sample_encoded_def)
  have h1: "wf_df sample_encoded" by (simp add: wf_df_def sample_encoded_def)
  have h2: "is_permutation (permutation ?l (RandomState seed) (len sample_encoded)) (len sample_encoded)"
    by (simp add: n is_permutation_def sample_lib_def seed_def upt_rec eval_nat_numeral del: mset_upt)
  have a: "int_float_mul float_0_7 4 = 2" "int_float_mul float_0_9 4 = 3"
    by (simp_all add: int_float_mul_def float_0_7_def float_0_9_def round_double_def
        bit_length_def compute_floorlog Let_def)
  have s: "map fst (shuffled_rows ?l (RandomState seed) sample_encoded) = [0, 3, 2, 1]"
    unfolding index_shuffled_rows[OF h2] by (simp add: sample_lib_def seed_def sample_encoded_def)
  from split_shuffles_then_slices[OF h1 h2, where ent = 0] obtain tr va te where
    "split ?l (Some seed) 0 sample_encoded = Inr (tr, va, te)"
    "labelled_rows tr = take 2 (shuffled_rows ?l (RandomState seed) sample_encoded)"
    "labelled_rows va = take (3 - 2) (drop 2 (shuffled_rows ?l (RandomState seed) sample_encoded))"
    "labelled_rows te = drop 3 (shuffled_rows ?l (RandomState seed) sample_encoded)"
    unfolding n a by blast
  then have "split ?l (Some seed) 0 sample_encoded = Inr (tr, va, te) \<and>
      map fst (labelled_rows tr) = [0, 3] \<and> map fst (labelled_rows va) = [2] \<and>
      map fst (labelled_rows te) = [1]"
    by (simp only: take_map[symmetric] drop_map[symmetric] s) simp
  then show ?thesis using h1 h2 by (intro conjI exI[of _ tr] exI[of _ va] exI[of _ te]) simp_all
qed

text \<open>
  C2: the three splits are a partition of the encoded frame. Their lengths add up to its
  length; no index label is in two of them (a row of a frame is identified by its label:
  two customers may well have equal values); the labelled rows of the three together are
  the labelled rows of the frame, and so are the rows as plain value lists.
\<close>

theorem split_is_partition:
  assumes "wf_df df" and "is_permutation (permutation l (RandomState sd) (len df)) (len df)"
  shows "\<exists>tr va te. split l (Some sd) ent df = Inr (tr, va, te) \<and>
    len tr + len va + len te = len df \<and>
    set (df_index tr) \<inter> set (df_index va) = {} \<and>
    set (df_index tr) \<inter> set (df_index te) = {} \<and>
    set (df_index va) \<inter> set (df_index te) = {} \<and>
    set (labelled_rows tr) \<union> set (labelled_rows va) \<union> set (labelled_rows te) =
      set (labelled_rows df) \<and>
    set (rows_of tr) \<union> set (rows_of va) \<union> set (rows_of te) = set (rows_of df)"
proof -
  obtain tr va te where sp: "split l (Some sd) ent df = Inr (tr, va, te)"
    and tr: "labelled_rows tr = take (int_float_mul float_0_7 (len df)) (shuffled_rows l (RandomState sd) df)"
    and va: "labelled_rows va = slice (int_float_mul float_0_7 (len df))
           (int_float_mul float_0_9 (len df)) (shuffled_rows l (RandomState sd) df)"
    and te: "labelled_rows te = drop (int_float_mul float_0_9 (len df)) (shuffled_rows l (RandomState sd) df)"
    using split_labelled_rows[OF assms(1) generator_of_Some assms(2)] by blast
  have app: "labelled_rows tr @ labelled_rows va @ labelled_rows te = shuffled_rows l (RandomState sd) df"
    unfolding tr va te by (rule blocks_append[OF split_points_ordered])
  have ms: "mset (labelled_rows tr @ labelled_rows va @ labelled_rows te) = mset (labelled_rows df)"
    unfolding app by (rule mset_shuffled_rows[OF assms(2)])
  have "length (labelled_rows tr @ labelled_rows va @ labelled_rows te) = length (labelled_rows df)"
    using ms by (rule mset_eq_length)
  then have n: "len tr + len va + len te = len df" by simp
  have "mset (map fst (labelled_rows tr @ labelled_rows va @ labelled_rows te)) =
      mset (map fst (labelled_rows df))"
    using ms by (metis mset_map)
  then have mi: "mset (df_index tr @ df_index va @ df_index te) = mset (df_index df)"
    by (simp only: map_append index_of_labelled_rows)
  have "distinct (df_index df)" using assms(1) by (simp add: wf_df_def)
  then have d: "distinct (df_index tr @ df_index va @ df_index te)"
    using mset_eq_imp_distinct_iff[OF mi] by simp
  have u: "set (labelled_rows tr) \<union> set (labelled_rows va) \<union> set (labelled_rows te) =
      set (labelled_rows df)"
    using mset_eq_setD[OF ms] by (simp add: Un_assoc)
  have "set (map snd (labelled_rows tr @ labelled_rows va @ labelled_rows te)) =
      set (map snd (labelled_rows df))"
    using ms by (metis mset_map mset_eq_setD)
  then have r: "set (rows_of tr) \<union> set (rows_of va) \<union> set (rows_of te) = set (rows_of df)"
    by (simp only: map_append rows_of_labelled_rows set_append Un_assoc)
  show ?thesis using sp n d u r by auto
qed

theorem split_is_partition_witness:
  "wf_df sample_encoded \<and>
   is_permutation (permutation (sample_lib sample_csv sample_frame [0, 3, 2, 1]) (RandomState seed) (len sample_encoded))
     (len sample_encoded) \<and>
   (\<exists>tr va te. split (sample_lib sample_csv sample_frame [0, 3, 2, 1]) (Some seed) 0 sample_encoded = Inr (tr, va, te) \<and>
      len tr + len va + len te = 4 \<and>
      set (df_index tr) \<inter> set (df_index va) = {} \<and>
      set (df_index tr) \<inter> set (df_index te) = {} \<and>
      set (df_index va) \<inter> set (df_index te) = {} \<and>
      set (labelled_rows tr) \<union> set (labelled_rows va) \<union> set (labelled_rows te) =
        set (labelled_rows sample_encoded))"
proof -
  let ?l = "sample_lib sample_csv sample_frame [0, 3, 2, 1]"
  have n: "len sample_encoded = 4" by (simp add: len_def sample_encoded_def)
  have h1: "wf_df sample_encoded" by (simp add: wf_df_def sample_encoded_def)
  have h2: "is_permutation (permutation ?l (RandomState seed) (len sample_encoded)) (len sample_encoded)"
    by (simp add: n is_permutation_def sample_lib_def seed_def upt_rec eval_nat_numeral del: mset_upt)
  from split_is_partition[OF h1 h2, where ent = 0] obtain tr va te where
    "split ?l (Some seed) 0 sample_encoded = Inr (tr, va, te)"
    "len tr + len va + len te = len sample_encoded"
    "set (df_index tr) \<inter> set (df_index va) = {}"
    "set (df_index tr) \<inter> set (df_index te) = {}"
    "set (df_index va) \<inter> set (df_index te) = {}"
    "set (labelled_rows tr) \<union> set (labelled_rows va) \<union> set (labelled_rows te) =
        set (labelled_rows sample_encoded)"
    by blast
  then show ?thesis using h1 h2 unfolding n
    by (intro conjI exI[of _ tr] exI[of _ va] exI[of _ te]) simp_all
qed

text \<open>
  C5: a frame of ten rows is cut at \<^verbatim>\<open>int(0.7 * 10) = 7\<close> and \<^verbatim>\<open>int(0.9 * 10) = 9\<close>, whatever
  the seed: train is rows 0 to 6 of the shuffled sequence, validation rows 7 and 8, test
  row 9, so the sizes are 7, 2 and 1.
\<close>

theorem split_of_ten_rows:
  assumes "wf_df df" and "len df = 10" and "is_permutation (permutation l (RandomState sd) 10) 10"
  shows "int_float_mul float_0_7 (len df) = 7 \<and> int_float_mul float_0_9 (len df) = 9 \<and>
    (\<exists>tr va te. split l (Some sd) ent df = Inr (tr, va, te) \<and>
       len tr = 7 \<and> len va = 2 \<and> len te = 1 \<and>
       labelled_rows tr = take 7 (shuffled_rows l (RandomState sd) df) \<and>
       labelled_rows va = take 2 (drop 7 (shuffled_rows l (RandomState sd) df)) \<and>
       labelled_rows te = drop 9 (shuffled_rows l (RandomState sd) df))"
proof -
  have p: "is_permutation (permutation l (RandomState sd) (len df)) (len df)" using assms(2,3) by simp
  obtain tr va te where sp: "split l (Some sd) ent df = Inr (tr, va, te)"
    and tr: "labelled_rows tr = take 7 (shuffled_rows l (RandomState sd) df)"
    and va: "labelled_rows va = slice 7 9 (shuffled_rows l (RandomState sd) df)"
    and te: "labelled_rows te = drop 9 (shuffled_rows l (RandomState sd) df)"
    using split_labelled_rows[OF assms(1) generator_of_Some p] unfolding assms(2) int_float_mul_10 by blast
  have n: "length (shuffled_rows l (RandomState sd) df) = 10"
    using is_permutation_facts(1)[OF assms(3)] by (simp add: shuffled_rows_def assms(2))
  have "length (labelled_rows tr) = 7" "length (labelled_rows va) = 2" "length (labelled_rows te) = 1"
    unfolding tr va te by (simp_all add: n slice_def)
  then have "len tr = 7" "len va = 2" "len te = 1" by simp_all
  then show ?thesis using sp tr va te by (simp add: assms(2) int_float_mul_10 slice_def)
qed

theorem split_of_ten_rows_witness:
  "wf_df ten_rows \<and> len ten_rows = 10 \<and>
   is_permutation (permutation (sample_lib sample_csv ten_rows [3, 8, 5, 9, 0, 6, 2, 7, 4, 1]) (RandomState seed) 10) 10 \<and>
   (\<exists>tr va te. split (sample_lib sample_csv ten_rows [3, 8, 5, 9, 0, 6, 2, 7, 4, 1]) (Some seed) 0 ten_rows = Inr (tr, va, te) \<and>
       len tr = 7 \<and> len va = 2 \<and> len te = 1)"
proof -
  let ?l = "sample_lib sample_csv ten_rows [3, 8, 5, 9, 0, 6, 2, 7, 4, 1]"
  have h1: "wf_df ten_rows" by (simp add: wf_df_def ten_rows_def)
  have h2: "len ten_rows = 10" by (simp add: len_def ten_rows_def)
  have h3: "is_permutation (permutation ?l (RandomState seed) 10) 10"
    by (simp add: is_permutation_def sample_lib_def seed_def upt_rec eval_nat_numeral del: mset_upt)
  from split_of_ten_rows[OF h1 h2 h3, where ent = 0] obtain tr va te where
    "split ?l (Some seed) 0 ten_rows = Inr (tr, va, te)" "len tr = 7" "len va = 2" "len te = 1"
    by blast
  then show ?thesis using h1 h2 h3
    by (intro conjI exI[of _ tr] exI[of _ va] exI[of _ te]) simp_all
qed

subsection \<open>Cleaning and encoding\<close>

lemma churn_name_split:
  assumes "n @ ''_'' @ s = ''Churn?_True.''"
  shows "n = ''Churn?'' \<and> s = ''True.''"
  using assms by (auto simp: append_eq_Cons_conv Cons_eq_append_conv)

lemma get_dummies_1d_props:
  assumes "x \<in> set (get_dummies_1d l src)"
  shows "col_dtype x = UInt8"
    and "\<exists>lv. col_name x = col_name src @ ''_'' @ level_str l lv \<and>
           col_vals x = map (indicator lv) (col_vals src)"
    and "set (col_vals x) \<subseteq> {I 0, I 1}"
    and "length (col_vals x) = length (col_vals src)"
  using assms by (auto simp: get_dummies_1d_def indicator_def)

lemma filter_key_distinct:
  assumes "distinct (map f xs)"
  shows "filter (\<lambda>x. f x = k) xs = [] \<or> (\<exists>x. filter (\<lambda>x. f x = k) xs = [x])"
  using assms
proof (induction xs)
  case Nil
  then show ?case by simp
next
  case (Cons a xs)
  show ?case
  proof (cases "f a = k")
    case True
    have "f x \<noteq> k" if "x \<in> set xs" for x
    proof
      assume "f x = k"
      then have "f a \<in> f ` set xs" using that True by (metis imageI)
      then show False using Cons.prems by simp
    qed
    then have "filter (\<lambda>x. f x = k) xs = []" by (simp add: filter_empty_conv)
    then show ?thesis using True by simp
  next
    case False
    then show ?thesis using Cons by simp
  qed
qed

lemma encode_columns:
  assumes "encode l c = Inr e"
  shows "df_columns e =
      filter (\<lambda>x. col_name x = ''Churn?_True.'') (df_columns (get_dummies l c)) @
      filter (\<lambda>x. col_name x \<noteq> ''Churn?_False.'' \<and> col_name x \<noteq> ''Churn?_True.'')
        (df_columns (get_dummies l c))"
    and "filter (\<lambda>x. col_name x = ''Churn?_True.'') (df_columns (get_dummies l c)) \<noteq> []"
    and "df_index e = df_index c"
  using assms
  by (auto simp: encode_def Let_def getitem_def drop_columns_def concat_axis1_def get_dummies_def
      split: list.splits sum.splits if_splits)


lemma get_dummies_columns:
  "df_columns (get_dummies l c) =
     filter (\<lambda>x. col_dtype x \<noteq> Object) (df_columns c) @
     concat (map (get_dummies_1d l) (filter (\<lambda>x. col_dtype x = Object) (df_columns c)))"
  by (simp add: get_dummies_def)

lemma encode_label:
  assumes "encode l c = Inr e"
    and "distinct (names (get_dummies l c))"
    and "''Churn?_True.'' \<notin> set (names c)"
  obtains label src lv where
    "df_columns e = label # filter (\<lambda>x. col_name x \<noteq> ''Churn?_False.'' \<and> col_name x \<noteq> ''Churn?_True.'')
        (df_columns (get_dummies l c))"
    and "col_name label = ''Churn?_True.''" and "col_dtype label = UInt8"
    and "src \<in> set (df_columns c)" and "col_name src = ''Churn?''" and "col_dtype src = Object"
    and "level_str l lv = ''True.''" and "col_vals label = map (indicator lv) (col_vals src)"
proof -
  let ?md = "df_columns (get_dummies l c)"
  from filter_key_distinct[of col_name ?md "''Churn?_True.''"] assms(2) encode_columns(2)[OF assms(1)]
  obtain label where lab: "filter (\<lambda>x. col_name x = ''Churn?_True.'') ?md = [label]"
    by (auto simp: names_def)
  then have "label \<in> set (filter (\<lambda>x. col_name x = ''Churn?_True.'') ?md)" by simp
  then have mem: "label \<in> set ?md" and nm: "col_name label = ''Churn?_True.''" by simp_all
  have "label \<notin> set (df_columns c)"
  proof
    assume "label \<in> set (df_columns c)"
    then have "col_name label \<in> set (names c)" by (simp add: names_def)
    then show False using nm assms(3) by simp
  qed
  then obtain src where src: "src \<in> set (df_columns c)" "col_dtype src = Object"
    and d: "label \<in> set (get_dummies_1d l src)"
    using mem by (auto simp: get_dummies_columns)
  from get_dummies_1d_props(2)[OF d] obtain lv where
    lv: "col_name label = col_name src @ ''_'' @ level_str l lv"
      "col_vals label = map (indicator lv) (col_vals src)" by blast
  from lv(1) nm have "col_name src = ''Churn?'' \<and> level_str l lv = ''True.''"
    using churn_name_split[of "col_name src" "level_str l lv"] by simp
  then show thesis
    using that[of label src lv] encode_columns(1)[OF assms(1)] lab nm
      get_dummies_1d_props(1)[OF d] src lv(2) by simp
qed

lemma wf_df_encode:
  assumes "wf_df c" and "encode l c = Inr e"
  shows "wf_df e"
proof -
  have "length (col_vals x) = length (df_index c)" if "x \<in> set (df_columns (get_dummies l c))" for x
    using that assms(1) get_dummies_1d_props(4)
    by (fastforce simp: get_dummies_columns wf_df_def list_all_iff)
  then show ?thesis
    using assms(1) by (auto simp: wf_df_def list_all_iff encode_columns[OF assms(2)])
qed

lemma split_rows_subset:
  assumes "wf_df e" and "generator_of rs ent = g"
    and "is_permutation (permutation l g (len e)) (len e)"
  obtains tr va te where "split l rs ent e = Inr (tr, va, te)"
    and "set (rows_of tr) \<union> set (rows_of va) \<union> set (rows_of te) = set (rows_of e)"
proof -
  obtain tr va te where sp: "split l rs ent e = Inr (tr, va, te)"
    and tr: "labelled_rows tr = take (int_float_mul float_0_7 (len e)) (shuffled_rows l g e)"
    and va: "labelled_rows va = slice (int_float_mul float_0_7 (len e))
           (int_float_mul float_0_9 (len e)) (shuffled_rows l g e)"
    and te: "labelled_rows te = drop (int_float_mul float_0_9 (len e)) (shuffled_rows l g e)"
    using split_labelled_rows[OF assms] by blast
  have "labelled_rows tr @ labelled_rows va @ labelled_rows te = shuffled_rows l g e"
    unfolding tr va te by (rule blocks_append[OF split_points_ordered])
  then have "mset (labelled_rows tr @ labelled_rows va @ labelled_rows te) = mset (labelled_rows e)"
    using mset_shuffled_rows[OF assms(3)] by simp
  then have "set (map snd (labelled_rows tr @ labelled_rows va @ labelled_rows te)) =
      set (map snd (labelled_rows e))"
    by (metis mset_map mset_eq_setD)
  then have "set (rows_of tr) \<union> set (rows_of va) \<union> set (rows_of te) = set (rows_of e)"
    by (simp only: map_append rows_of_labelled_rows set_append Un_assoc)
  then show thesis using sp that by blast
qed

lemma hd_rows_of:
  assumes "wf_df e" and "df_columns e = label # feats" and "row \<in> set (rows_of e)"
  shows "row \<noteq> [] \<and> hd row \<in> set (col_vals label)"
proof -
  from assms(3) obtain i where i: "i < len e" and row: "row = map (\<lambda>c. col_vals c ! i) (df_columns e)"
    by (auto simp: rows_of_def)
  have "length (col_vals label) = len e" using wf_df_cols[OF assms(1), of label] assms(2) by simp
  then show ?thesis using i row assms(2) by simp
qed

text \<open>The sample input, stage by stage.\<close>

lemma clean_sample: "clean sample_frame = Inr sample_cleaned"
  by (simp add: clean_def drop_columns_def astype_object_def getitem_def names_def
      sample_frame_def sample_cleaned_def)

lemma str_nat_408: "str_nat 408 = ''408''" "str_nat 415 = ''415''"
  by simp_all

lemma get_dummies_sample:
  "df_columns (get_dummies l sample_cleaned) =
     [\<lparr>col_name = ''Account Length'', col_dtype = Int64, col_vals = [I 128, I 107, I 137, I 84]\<rparr>,
      \<lparr>col_name = ''Area Code_408'', col_dtype = UInt8, col_vals = [I 0, I 1, I 0, I 1]\<rparr>,
      \<lparr>col_name = ''Area Code_415'', col_dtype = UInt8, col_vals = [I 1, I 0, I 1, I 0]\<rparr>,
      \<lparr>col_name = ''VMail Plan_no'', col_dtype = UInt8, col_vals = [I 0, I 1, I 1, I 0]\<rparr>,
      \<lparr>col_name = ''VMail Plan_yes'', col_dtype = UInt8, col_vals = [I 1, I 0, I 0, I 1]\<rparr>,
      \<lparr>col_name = ''Churn?_False.'', col_dtype = UInt8, col_vals = [I 1, I 0, I 1, I 0]\<rparr>,
      \<lparr>col_name = ''Churn?_True.'', col_dtype = UInt8, col_vals = [I 0, I 1, I 0, I 1]\<rparr>]"
  by (simp add: get_dummies_def get_dummies_1d_def levels_def py_eq_def level_le_def level_str_def
      str_int_def str_nat_408 sample_cleaned_def)

lemma encode_sample: "encode l sample_cleaned = Inr sample_encoded"
  by (simp add: encode_def Let_def getitem_def drop_columns_def names_def concat_axis1_def
      get_dummies_sample)
    (simp add: get_dummies_def sample_cleaned_def sample_encoded_def)

lemma schema_take_rows: "take_rows p df = Inr sh \<Longrightarrow> schema sh = schema df"
  by (auto simp: take_rows_def schema_def split: if_splits)

lemma schema_iloc_slice: "schema (iloc_slice st en df) = schema df"
  by (simp add: iloc_slice_def schema_def)

lemma split_schema:
  assumes "split l rs ent e = Inr (tr, va, te)"
  shows "schema tr = schema e" and "schema va = schema e" and "schema te = schema e"
proof -
  from assms obtain sh where sh: "take_rows (permutation l (generator_of rs ent) (len e)) e = Inr sh"
    and p: "np_split sh [int_float_mul float_0_7 (len e), int_float_mul float_0_9 (len e)] = [tr, va, te]"
    by (auto simp: split_def sample_def split: sum.splits list.splits)
  from p show "schema tr = schema e" and "schema va = schema e" and "schema te = schema e"
    using schema_take_rows[OF sh] by (auto simp: np_split_two schema_iloc_slice)
qed

lemma names_schema: "names df = map fst (schema df)"
  by (simp add: names_def schema_def comp_def)

lemma drop_columns_Inr:
  assumes "drop_columns labels df = Inr df'"
  shows "df_columns df' = filter (\<lambda>c. col_name c \<notin> set labels) (df_columns df)"
    and "df_index df' = df_index df" and "set labels \<subseteq> set (names df)"
  using assms by (auto simp: drop_columns_def Let_def filter_empty_conv split: if_splits)

lemma astype_object_Inr:
  assumes "astype_object key df = Inr df'"
  shows "df_columns df' =
      map (\<lambda>c. if col_name c = key then c\<lparr>col_dtype := Object\<rparr> else c) (df_columns df)"
    and "df_index df' = df_index df" and "names df' = names df"
  using assms
  by (auto simp: astype_object_def names_def split: sum.splits)

lemma clean_columns:
  assumes "clean df = Inr c"
  shows "df_columns c =
      filter (\<lambda>x. col_name x \<notin> set [''Day Charge'', ''Eve Charge'', ''Night Charge'', ''Intl Charge''])
        (map (\<lambda>x. if col_name x = ''Area Code'' then x\<lparr>col_dtype := Object\<rparr> else x)
          (filter (\<lambda>x. col_name x \<notin> set [''Phone'']) (df_columns df)))"
    and "df_index c = df_index df"
proof -
  from assms obtain df1 df2 where d1: "drop_columns [''Phone''] df = Inr df1"
    and d2: "astype_object ''Area Code'' df1 = Inr df2"
    and d3: "drop_columns [''Day Charge'', ''Eve Charge'', ''Night Charge'', ''Intl Charge''] df2 = Inr c"
    by (auto simp: clean_def split: sum.splits)
  show "df_columns c =
      filter (\<lambda>x. col_name x \<notin> set [''Day Charge'', ''Eve Charge'', ''Night Charge'', ''Intl Charge''])
        (map (\<lambda>x. if col_name x = ''Area Code'' then x\<lparr>col_dtype := Object\<rparr> else x)
          (filter (\<lambda>x. col_name x \<notin> set [''Phone'']) (df_columns df)))"
    by (simp only: drop_columns_Inr(1)[OF d3] astype_object_Inr(1)[OF d2] drop_columns_Inr(1)[OF d1])
  show "df_index c = df_index df"
    by (simp only: drop_columns_Inr(2)[OF d3] astype_object_Inr(2)[OF d2] drop_columns_Inr(2)[OF d1])
qed

lemma numeric_column_survives_clean:
  assumes "clean df = Inr c" and "col \<in> set (df_columns df)" and "col_dtype col \<noteq> Object"
    and "col_name col \<notin> set discard_columns" and "col_name col \<noteq> ''Area Code''"
  shows "col \<in> set (df_columns c)"
proof -
  have "col_name col \<noteq> ''Phone''" "col_name col \<notin> set [''Day Charge'', ''Eve Charge'', ''Night Charge'', ''Intl Charge'']"
    using assms(4) by (simp_all add: discard_columns_def)
  then have "col \<in> set (filter (\<lambda>x. col_name x \<notin> set [''Day Charge'', ''Eve Charge'', ''Night Charge'', ''Intl Charge''])
        (map (\<lambda>x. if col_name x = ''Area Code'' then x\<lparr>col_dtype := Object\<rparr> else x)
          (filter (\<lambda>x. col_name x \<notin> set [''Phone'']) (df_columns df))))"
    using assms(2,5) by (simp only: set_filter set_map) force
  then show ?thesis by (simp only: clean_columns(1)[OF assms(1)])
qed

lemma numeric_column_survives_encode:
  assumes "encode l c = Inr e" and "col \<in> set (df_columns c)" and "col_dtype col \<noteq> Object"
    and "col_name col \<noteq> ''Churn?_True.''" and "col_name col \<noteq> ''Churn?_False.''"
  shows "col \<in> set (df_columns e)"
proof -
  have "col \<in> set (df_columns (get_dummies l c))"
    using assms(2,3) by (simp add: get_dummies_columns)
  then show ?thesis using assms(4,5) by (simp add: encode_columns(1)[OF assms(1)])
qed

lemma encoded_column_origin:
  assumes "encode l c = Inr e" and "col \<in> set (df_columns e)"
  shows "(col \<in> set (df_columns c) \<and> col_dtype col \<noteq> Object) \<or>
    (\<exists>src\<in>set (df_columns c). col_dtype src = Object \<and> col \<in> set (get_dummies_1d l src))"
proof -
  have "col \<in> set (df_columns (get_dummies l c))"
    using assms(2) by (auto simp: encode_columns(1)[OF assms(1)])
  then show ?thesis by (auto simp: get_dummies_columns)
qed

text \<open>
  C10: encoding leaves the numeric columns alone. The rows keep their order (the index
  is the input's); every column of the cleaned frame that is not an object column, and so
  every such column of the input that is neither discarded nor "Area Code", is a column
  of the encoded frame with its name, its type and all its values (unless it bears one of
  the two churn indicator names, which encode removes); and every column of the encoded
  frame is either such a column or an indicator column of an object column.
\<close>

theorem encode_keeps_numeric_columns:
  assumes "clean df = Inr c" and "encode l c = Inr e"
  shows "df_index e = df_index df \<and>
    (\<forall>col\<in>set (df_columns c).
       col_dtype col \<noteq> Object \<and> col_name col \<noteq> ''Churn?_True.'' \<and> col_name col \<noteq> ''Churn?_False.''
       \<longrightarrow> col \<in> set (df_columns e)) \<and>
    (\<forall>col\<in>set (df_columns df).
       col_dtype col \<noteq> Object \<and> col_name col \<notin> set discard_columns \<and> col_name col \<noteq> ''Area Code'' \<and>
       col_name col \<noteq> ''Churn?_True.'' \<and> col_name col \<noteq> ''Churn?_False.''
       \<longrightarrow> col \<in> set (df_columns e)) \<and>
    (\<forall>col\<in>set (df_columns e).
       (col \<in> set (df_columns c) \<and> col_dtype col \<noteq> Object) \<or>
       (\<exists>src\<in>set (df_columns c). col_dtype src = Object \<and> col \<in> set (get_dummies_1d l src)))"
proof (intro conjI ballI impI)
  show "df_index e = df_index df"
    by (simp only: encode_columns(3)[OF assms(2)] clean_columns(2)[OF assms(1)])
next
  fix col assume "col \<in> set (df_columns c)"
    and "col_dtype col \<noteq> Object \<and> col_name col \<noteq> ''Churn?_True.'' \<and> col_name col \<noteq> ''Churn?_False.''"
  then show "col \<in> set (df_columns e)"
    using numeric_column_survives_encode[OF assms(2), of col] by simp
next
  fix col assume m: "col \<in> set (df_columns df)"
    and h: "col_dtype col \<noteq> Object \<and> col_name col \<notin> set discard_columns \<and> col_name col \<noteq> ''Area Code'' \<and>
       col_name col \<noteq> ''Churn?_True.'' \<and> col_name col \<noteq> ''Churn?_False.''"
  have "col \<in> set (df_columns c)"
    using numeric_column_survives_clean[OF assms(1) m] h by simp
  then show "col \<in> set (df_columns e)"
    using numeric_column_survives_encode[OF assms(2), of col] h by simp
next
  fix col assume "col \<in> set (df_columns e)"
  then show "(col \<in> set (df_columns c) \<and> col_dtype col \<noteq> Object) \<or>
       (\<exists>src\<in>set (df_columns c). col_dtype src = Object \<and> col \<in> set (get_dummies_1d l src))"
    by (rule encoded_column_origin[OF assms(2)])
qed

theorem encode_keeps_numeric_columns_witness:
  "clean sample_frame = Inr sample_cleaned \<and>
   encode (sample_lib sample_csv sample_frame [0, 3, 2, 1]) sample_cleaned = Inr sample_encoded \<and>
   df_index sample_encoded = df_index sample_frame \<and>
   \<lparr>col_name = ''Account Length'', col_dtype = Int64, col_vals = [I 128, I 107, I 137, I 84]\<rparr>
     \<in> set (df_columns sample_frame) \<and>
   \<lparr>col_name = ''Account Length'', col_dtype = Int64, col_vals = [I 128, I 107, I 137, I 84]\<rparr>
     \<in> set (df_columns sample_encoded)"
proof -
  let ?l = "sample_lib sample_csv sample_frame [0, 3, 2, 1]"
  let ?col = "\<lparr>col_name = ''Account Length'', col_dtype = Int64, col_vals = [I 128, I 107, I 137, I 84]\<rparr>"
  have h1: "clean sample_frame = Inr sample_cleaned" by (rule clean_sample)
  have h2: "encode ?l sample_cleaned = Inr sample_encoded" by (rule encode_sample)
  have m: "?col \<in> set (df_columns sample_frame)" by (simp add: sample_frame_def)
  have p: "col_dtype ?col \<noteq> Object \<and> col_name ?col \<notin> set discard_columns \<and>
      col_name ?col \<noteq> ''Area Code'' \<and> col_name ?col \<noteq> ''Churn?_True.'' \<and>
      col_name ?col \<noteq> ''Churn?_False.''"
    by (simp add: discard_columns_def)
  note t = encode_keeps_numeric_columns[OF h1 h2]
  have i: "df_index sample_encoded = df_index sample_frame" using t by (rule conjunct1)
  have "?col \<in> set (df_columns sample_encoded)"
    using bspec[OF t[THEN conjunct2, THEN conjunct2, THEN conjunct1] m] p by (rule mp)
  with h1 h2 i m show ?thesis by (intro conjI)
qed

subsection \<open>The run as a whole\<close>

lemma paths_distinct:
  "train_path \<noteq> raw_path" "validation_path \<noteq> raw_path" "test_path \<noteq> raw_path"
  "train_path \<noteq> validation_path" "train_path \<noteq> test_path" "validation_path \<noteq> test_path"
  by (simp_all add: train_path_def validation_path_def test_path_def raw_path_def base_dir_def)

lemma dirname_paths:
  "dirname raw_path = ''/opt/ml/processing/data''"
  "dirname train_path = ''/opt/ml/processing/train''"
  "dirname validation_path = ''/opt/ml/processing/validation''"
  "dirname test_path = ''/opt/ml/processing/test''"
  by (simp_all add: dirname_def train_path_def validation_path_def test_path_def raw_path_def
      base_dir_def)

lemma mkdir_p_frame:
  "mkdir_p ps w = (w', r) \<Longrightarrow> files w' = files w \<and> same_but_files_dirs w w'"
proof (induction ps w arbitrary: w' r rule: mkdir_p.induct)
  case (1 w)
  then show ?case by (auto simp: same_but_files_dirs_def)
next
  case (2 q ps w)
  show ?case
  proof (cases "q \<in> dirs w \<or> q \<in> dom (files w)")
    case True
    then show ?thesis using "2.prems" by (auto simp: same_but_files_dirs_def split: if_splits)
  next
    case False
    obtain w1 r1 where m: "mkdir_p ps w = (w1, r1)" by (cases "mkdir_p ps w")
    have ih: "files w1 = files w \<and> same_but_files_dirs w w1"
      using "2.IH"[OF _ _ m] False by simp
    show ?thesis
      using "2.prems" False m ih
      by (auto simp: same_but_files_dirs_def split: option.splits if_splits)
  qed
qed

lemma mkdir_p_made:
  "mkdir_p (q # ps) w = (w', None) \<Longrightarrow> q \<in> dirs w'"
  using mkdir_p_frame[of ps w]
  by (auto simp: same_but_files_dirs_def split: if_splits prod.splits option.splits)

lemma write_file_frame:
  assumes "write_file p content w = (w', r)"
  shows "dirs w' = dirs w" and "same_but_files_dirs w w'" and "q \<noteq> p \<Longrightarrow> files w' q = files w q"
    and "r = None \<Longrightarrow> files w' p = Some content"
    and "r = None \<or> r = Some (OSError p)"
  using assms by (auto simp: write_file_def same_but_files_dirs_def split: if_splits)

lemma download_file_frame:
  assumes "download_file bucket key fn w = (w', r)"
  shows "dirs w' = dirs w" and "same_but_files_dirs w w'" and "q \<noteq> fn \<Longrightarrow> files w' q = files w q"
    and "r = None \<Longrightarrow> \<exists>bytes. files w' fn = Some bytes"
  using assms
  by (auto simp: download_file_def same_but_files_dirs_def split: option.splits if_splits)

lemma fetch_frame:
  assumes "fetch url w = (w', r)"
  shows "same_but_files_dirs w w'" and "q \<noteq> raw_path \<Longrightarrow> files w' q = files w q"
    and "r = None \<Longrightarrow> \<exists>bytes. files w' raw_path = Some bytes"
proof -
  obtain w1 r1 where m: "mkdir_parents (base_dir @ ''/data'') w = (w1, r1)"
    by (cases "mkdir_parents (base_dir @ ''/data'') w")
  have f1: "files w1 = files w" and s1: "same_but_files_dirs w w1"
    using mkdir_p_frame[OF m[unfolded mkdir_parents_def]] by simp_all
  let ?parts = "py_split CHR ''/'' url"
  consider (a) "r1 \<noteq> None" | (b) "r1 = None" "length ?parts \<le> 2" | (c) "r1 = None" "2 < length ?parts"
    by fastforce
  then have "same_but_files_dirs w w' \<and> (q \<noteq> raw_path \<longrightarrow> files w' q = files w q) \<and>
      (r = None \<longrightarrow> (\<exists>bytes. files w' raw_path = Some bytes))"
  proof cases
    case a
    then show ?thesis using assms m f1 s1 by (auto simp: fetch_def)
  next
    case b
    then show ?thesis using assms m f1 s1 by (auto simp: fetch_def Let_def)
  next
    case c
    then have d: "download_file (?parts ! 2) (py_join ''/'' (drop 3 ?parts)) raw_path w1 = (w', r)"
      using assms m by (simp add: fetch_def Let_def)
    show ?thesis
      using download_file_frame[OF d] f1 s1
      by (auto simp: same_but_files_dirs_def)
  qed
  then show "same_but_files_dirs w w'" and "q \<noteq> raw_path \<Longrightarrow> files w' q = files w q"
    and "r = None \<Longrightarrow> \<exists>bytes. files w' raw_path = Some bytes"
    by simp_all
qed

lemma load_cases:
  assumes "load l url w = (x, w')"
  obtains (early) e where "fetch url w = (w', Some e)" and "x = Inl e"
  | (read) bytes where "fetch url w = (w', None)" and "files w' raw_path = Some bytes"
      and "x = (if bytes = [] then Inl EmptyDataError else csv_parser l bytes)"
proof -
  obtain v r where f: "fetch url w = (v, r)" by (cases "fetch url w")
  show thesis
  proof (cases r)
    case None
    then have v: "v = w'" and x: "x = read_csv l raw_path w'"
      using assms f by (auto simp: load_def)
    obtain bytes where b: "files w' raw_path = Some bytes"
      using fetch_frame(3)[OF f] None v by auto
    show ?thesis using read[of bytes] f None v b x by (simp add: read_csv_def)
  next
    case (Some e)
    then show ?thesis using assms f early[of e] by (auto simp: load_def)
  qed
qed

lemma load_files:
  assumes "load l url w = (x, w')" and "p \<noteq> raw_path"
  shows "files w' p = files w p"
  using assms(1)
proof (cases rule: load_cases)
  case (early e)
  then show ?thesis using fetch_frame(2)[OF early(1) assms(2)] by simp
next
  case (read bytes)
  then show ?thesis using fetch_frame(2)[OF read(1) assms(2)] by simp
qed

lemma load_entropy:
  assumes "load l url w = (x, w')"
  shows "entropy w' = entropy w"
  using assms
proof (cases rule: load_cases)
  case (early e)
  then show ?thesis using fetch_frame(1)[OF early(1)] by (simp add: same_but_files_dirs_def)
next
  case (read bytes)
  then show ?thesis using fetch_frame(1)[OF read(1)] by (simp add: same_but_files_dirs_def)
qed

lemma load_Inr:
  assumes "load l url w = (Inr df, w')"
  obtains bytes where "fetch url w = (w', None)" and "files w' raw_path = Some bytes"
    and "bytes \<noteq> []" and "csv_parser l bytes = Inr df"
  using assms
proof (cases rule: load_cases)
  case (early e)
  then show ?thesis by simp
next
  case (read bytes)
  then show ?thesis using that[of bytes] by (cases "bytes = []") simp_all
qed

lemma load_of_fetch:
  assumes "fetch url w = (v, None)" and "files v raw_path = Some bytes"
  shows "load l url w = ((if bytes = [] then Inl EmptyDataError else csv_parser l bytes), v)"
  using assms by (simp add: load_def read_csv_def)

lemma script_load_error:
  "load l url w = (Inl e, w') \<Longrightarrow> script l rs url w = (w', Some e)"
  by (simp add: script_def)

lemma script_transform_error:
  "load l url w = (Inr df, w') \<Longrightarrow> transform l rs (entropy w') df = Inl e \<Longrightarrow>
     script l rs url w = (w', Some e)"
  by (simp add: script_def)

lemma script_write:
  "load l url w = (Inr df, w') \<Longrightarrow> transform l rs (entropy w') df = Inr sp \<Longrightarrow>
     script l rs url w = write_splits l sp w'"
  by (simp add: script_def)

lemma write_splits_cases:
  assumes "write_splits l (tr, va, te) w = (w', r)"
  obtains (written) "r = None" and "files w' train_path = Some (csv_text l tr)"
      and "files w' validation_path = Some (csv_text l va)"
      and "files w' test_path = Some (csv_text l te)"
  | (first) "r = Some (OSError train_path)"
      and "files w' validation_path = files w validation_path"
      and "files w' test_path = files w test_path"
  | (second) "r = Some (OSError validation_path)"
      and "files w' train_path = Some (csv_text l tr)"
      and "files w' test_path = files w test_path"
  | (third) "r = Some (OSError test_path)"
      and "files w' train_path = Some (csv_text l tr)"
      and "files w' validation_path = Some (csv_text l va)"
proof -
  obtain w1 r1 where a: "write_file train_path (csv_text l tr) w = (w1, r1)"
    by (cases "write_file train_path (csv_text l tr) w")
  note fa = write_file_frame[OF a]
  show thesis
  proof (cases r1)
    case (Some e)
    then have "w' = w1" "r = Some (OSError train_path)"
      using assms a fa(5) by (auto simp: write_splits_def to_csv_def)
    then show ?thesis using first fa(3) paths_distinct by simp
  next
    case None
    obtain w2 r2 where b: "write_file validation_path (csv_text l va) w1 = (w2, r2)"
      by (cases "write_file validation_path (csv_text l va) w1")
    note fb = write_file_frame[OF b]
    show ?thesis
    proof (cases r2)
      case (Some e)
      then have "w' = w2" "r = Some (OSError validation_path)"
        using assms a b None fb(5) by (auto simp: write_splits_def to_csv_def)
      then show ?thesis
        using second fa(3)[of test_path] fa(4) fb(3)[of train_path] fb(3)[of test_path] None
          paths_distinct by simp
    next
      case n2: None
      have c: "write_file test_path (csv_text l te) w2 = (w', r)"
        using assms a b None n2 by (simp add: write_splits_def to_csv_def)
      note fc = write_file_frame[OF c]
      have t: "files w' train_path = Some (csv_text l tr)"
        using fa(4) fb(3)[of train_path] fc(3)[of train_path] None paths_distinct by simp
      have v: "files w' validation_path = Some (csv_text l va)"
        using fb(4) fc(3)[of validation_path] n2 paths_distinct by simp
      show ?thesis
      proof (cases r)
        case None
        then show ?thesis using written t v fc(4) by simp
      next
        case (Some e)
        then show ?thesis using third t v fc(5) by simp
      qed
    qed
  qed
qed

lemma write_splits_raw:
  assumes "write_splits l (tr, va, te) w = (w', r)"
  shows "files w' raw_path = files w raw_path"
proof -
  obtain w1 r1 where a: "write_file train_path (csv_text l tr) w = (w1, r1)"
    by (cases "write_file train_path (csv_text l tr) w")
  obtain w2 r2 where b: "write_file validation_path (csv_text l va) w1 = (w2, r2)"
    by (cases "write_file validation_path (csv_text l va) w1")
  obtain w3 r3 where c: "write_file test_path (csv_text l te) w2 = (w3, r3)"
    by (cases "write_file test_path (csv_text l te) w2")
  have "w' = w1 \<or> w' = w2 \<or> w' = w3"
    using assms a b c by (auto simp: write_splits_def to_csv_def split: option.splits)
  then show ?thesis
    using write_file_frame(3)[OF a, of raw_path] write_file_frame(3)[OF b, of raw_path]
      write_file_frame(3)[OF c, of raw_path] paths_distinct by auto
qed

lemma main_transform_error:
  "load l url w = (Inr df, w') \<Longrightarrow> transform l (Some seed) (entropy w') df = Inl e \<Longrightarrow>
     main l url w = (w', Some e)"
  by (simp add: main_def script_transform_error)

lemma drop_columns_missing:
  assumes "x \<in> set labels" and "x \<notin> set (names df)"
  shows "drop_columns labels df = Inl (KeyError (filter (\<lambda>l. l \<notin> set (names df)) labels))"
proof -
  have "x \<in> set (filter (\<lambda>l. l \<notin> set (names df)) labels)" using assms by simp
  then have "filter (\<lambda>l. l \<notin> set (names df)) labels \<noteq> []" by (metis empty_iff empty_set)
  then show ?thesis by (simp add: drop_columns_def Let_def)
qed

lemma drop_columns_present:
  assumes "set labels \<subseteq> set (names df)"
  shows "drop_columns labels df =
    Inr (df\<lparr>df_columns := filter (\<lambda>c. col_name c \<notin> set labels) (df_columns df)\<rparr>)"
proof -
  have "filter (\<lambda>l. l \<notin> set (names df)) labels = []"
    using assms by (auto simp: filter_empty_conv)
  then show ?thesis by (simp add: drop_columns_def Let_def)
qed

lemma names_after_drop:
  "names (df\<lparr>df_columns := filter (\<lambda>c. col_name c \<notin> set labels) (df_columns df)\<rparr>) =
     filter (\<lambda>n. n \<notin> set labels) (names df)"
  by (simp add: names_def filter_map comp_def)

lemma astype_object_cases:
  obtains "astype_object key df = Inl (KeyError [key])"
  | df' where "astype_object key df = Inr df'" and "names df' = names df"
proof (cases "astype_object key df")
  case (Inl e)
  then have "e = KeyError [key]"
    by (auto simp: astype_object_def getitem_def split: sum.splits list.splits)
  then show ?thesis using Inl that(1) by simp
next
  case (Inr df')
  then show ?thesis using that(2) astype_object_Inr(3)[OF Inr] by simp
qed

lemma clean_missing_column:
  assumes "x \<in> set discard_columns" and "x \<notin> set (names df)"
  obtains ks where "clean df = Inl (KeyError ks)"
    and "''Phone'' \<notin> set (names df) \<longrightarrow> ks = [''Phone'']"
proof (cases "''Phone'' \<in> set (names df)")
  case False
  then have "drop_columns [''Phone''] df = Inl (KeyError [''Phone''])"
    using drop_columns_missing[of "''Phone''" "[''Phone'']" df] by simp
  then have "clean df = Inl (KeyError [''Phone''])" by (simp add: clean_def)
  then show ?thesis using that by simp
next
  case True
  let ?charges = "[''Day Charge'', ''Eve Charge'', ''Night Charge'', ''Intl Charge'']"
  let ?df1 = "df\<lparr>df_columns := filter (\<lambda>c. col_name c \<notin> set [''Phone'']) (df_columns df)\<rparr>"
  have d1: "drop_columns [''Phone''] df = Inr ?df1"
    using True by (intro drop_columns_present) simp
  have "x \<noteq> ''Phone''" using True assms(2) by (metis)
  then have xc: "x \<in> set ?charges" using assms(1) by (simp add: discard_columns_def)
  have x1: "x \<notin> set (names ?df1)" using assms(2) by (simp only: names_after_drop set_filter) simp
  show ?thesis
  proof (cases rule: astype_object_cases[of "''Area Code''" ?df1])
    case 1
    then have "clean df = Inl (KeyError [''Area Code''])" by (simp add: clean_def d1)
    then show ?thesis using that True by simp
  next
    case (2 df2)
    then have "x \<notin> set (names df2)" using x1 by simp
    then have "drop_columns ?charges df2 = Inl (KeyError (filter (\<lambda>l. l \<notin> set (names df2)) ?charges))"
      using xc by (intro drop_columns_missing[of x]) 
    then have "clean df = Inl (KeyError (filter (\<lambda>l. l \<notin> set (names df2)) ?charges))"
      using 2(1) by (simp add: clean_def d1)
    then show ?thesis using that True by simp
  qed
qed


text \<open>
  C6: when the parsed frame lacks "Phone", or any other of the five columns the script
  drops, cleaning raises: \<^verbatim>\<open>drop\<close> (or, for a frame that also lacks "Area Code", the
  lookup of that column) ends the run with pandas' KeyError, which is the schema error of
  the script, naming "Phone" when that is the column missing. The run stops there: none of
  the three output files is written.
\<close>

theorem missing_discard_column_fails:
  assumes "load l url st0 = (Inr df, st)"
    and "x \<in> set discard_columns" and "x \<notin> set (names df)"
  shows "\<exists>ks. clean df = Inl (KeyError ks) \<and>
    main l url st0 = (st, Some (KeyError ks)) \<and>
    (''Phone'' \<notin> set (names df) \<longrightarrow> ks = [''Phone'']) \<and>
    files st train_path = files st0 train_path \<and>
    files st validation_path = files st0 validation_path \<and>
    files st test_path = files st0 test_path"
proof -
  obtain ks where c: "clean df = Inl (KeyError ks)"
    and ph': "''Phone'' \<notin> set (names df) \<longrightarrow> ks = [''Phone'']"
    using assms(2,3) by (rule clean_missing_column)
  have "transform l (Some seed) (entropy st) df = Inl (KeyError ks)" by (simp add: transform_def c)
  then have m: "main l url st0 = (st, Some (KeyError ks))"
    using assms(1) by (rule main_transform_error[rotated])
  have f: "files st train_path = files st0 train_path"
    "files st validation_path = files st0 validation_path"
    "files st test_path = files st0 test_path"
    using load_files[OF assms(1)] paths_distinct by simp_all
  show ?thesis
    apply (rule exI[of _ ks])
    apply (intro conjI)
    by (fact c m ph' f)+
qed

lemma sample_url_parts:
  "py_split CHR ''/'' sample_url =
     [''s3:'', [], ''bucket'', ''sagemaker'', ''DEMO-xgboost-churn'', ''data'', ''RawData.csv'']"
  by (simp add: sample_url_def)

lemma mkdir_data:
  assumes "''/opt/ml/processing'' \<in> dirs w" and "''/opt/ml/processing/data'' \<notin> dirs w"
    and "''/opt/ml/processing/data'' \<notin> dom (files w)" and "denied w = {}"
  shows "mkdir_parents (base_dir @ ''/data'') w =
    (w\<lparr>dirs := insert ''/opt/ml/processing/data'' (dirs w)\<rparr>, None)"
  using assms by (simp add: mkdir_parents_def base_dir_def)

lemma fetch_sample_url:
  assumes "''/opt/ml/processing'' \<in> dirs w" and "''/opt/ml/processing/data'' \<notin> dirs w"
    and "''/opt/ml/processing/data'' \<notin> dom (files w)" and "denied w = {}"
    and "short_write w = Map.empty" and "raw_path \<notin> dirs w"
    and "s3_object w ''bucket'' ''sagemaker/DEMO-xgboost-churn/data/RawData.csv'' = Some bytes"
  shows "fetch sample_url w =
    (w\<lparr>dirs := insert ''/opt/ml/processing/data'' (dirs w),
       files := (files w)(raw_path \<mapsto> bytes)\<rparr>, None)"
proof -
  have r: "raw_path \<noteq> ''/opt/ml/processing/data''"
    by (simp add: raw_path_def base_dir_def)
  show ?thesis
    using assms(5,6,7) r
    by (simp add: fetch_def mkdir_data[OF assms(1,2,3,4)] Let_def sample_url_parts
        download_file_def open_fails_def accepted_def dirname_paths assms(4))
qed

lemma sample_world_fetch:
  "fetch sample_url (sample_world bytes) =
    ((sample_world bytes)\<lparr>dirs := insert ''/opt/ml/processing/data'' (dirs (sample_world bytes)),
       files := (files (sample_world bytes))(raw_path \<mapsto> bytes)\<rparr>, None)"
  by (rule fetch_sample_url) (simp_all add: sample_world_def raw_path_def base_dir_def)

lemma load_sample:
  assumes "bytes \<noteq> []" and "fetch sample_url w = (w', None)" and "files w' raw_path = Some bytes"
  shows "load (sample_lib bytes df p) sample_url w = (Inr df, w')"
  using assms by (simp add: load_of_fetch sample_lib_def)

theorem missing_discard_column_fails_witness:
  "fst (load (sample_lib no_phone_csv no_phone_frame [0, 1]) sample_url (sample_world no_phone_csv)) =
     Inr no_phone_frame \<and>
   ''Phone'' \<in> set discard_columns \<and> ''Phone'' \<notin> set (names no_phone_frame) \<and>
   clean no_phone_frame = Inl (KeyError [''Phone'']) \<and>
   snd (main (sample_lib no_phone_csv no_phone_frame [0, 1]) sample_url (sample_world no_phone_csv)) =
     Some (KeyError [''Phone'']) \<and>
   files (fst (main (sample_lib no_phone_csv no_phone_frame [0, 1]) sample_url
     (sample_world no_phone_csv))) train_path = None \<and>
   files (fst (main (sample_lib no_phone_csv no_phone_frame [0, 1]) sample_url
     (sample_world no_phone_csv))) validation_path = None \<and>
   files (fst (main (sample_lib no_phone_csv no_phone_frame [0, 1]) sample_url
     (sample_world no_phone_csv))) test_path = None"
proof -
  let ?l = "sample_lib no_phone_csv no_phone_frame [0, 1]"
  let ?w = "sample_world no_phone_csv"
  let ?st = "?w\<lparr>dirs := insert ''/opt/ml/processing/data'' (dirs ?w),
       files := (files ?w)(raw_path \<mapsto> no_phone_csv)\<rparr>"
  have ne: "no_phone_csv \<noteq> []" by (simp add: no_phone_csv_def)
  have h1: "load ?l sample_url ?w = (Inr no_phone_frame, ?st)"
    using ne sample_world_fetch by (rule load_sample) simp
  have h2: "''Phone'' \<in> set discard_columns" by (simp add: discard_columns_def)
  have h3: "''Phone'' \<notin> set (names no_phone_frame)" by (simp add: names_def no_phone_frame_def)
  from missing_discard_column_fails[OF h1 h2 h3] obtain ks where
    r: "clean no_phone_frame = Inl (KeyError ks)" "main ?l sample_url ?w = (?st, Some (KeyError ks))"
      "''Phone'' \<notin> set (names no_phone_frame) \<longrightarrow> ks = [''Phone'']"
      "files ?st train_path = files ?w train_path"
      "files ?st validation_path = files ?w validation_path"
      "files ?st test_path = files ?w test_path"
    by (elim exE conjE)
  have ks: "ks = [''Phone'']" using r(3) h3 by (rule mp)
  have e: "files ?w q = None" for q by (simp add: sample_world_def)
  show ?thesis
    using h2 h3 r(1,4,5,6) by (simp only: h1 r(2) ks e fst_conv snd_conv) simp
qed

lemma upstream_of_fetch:
  assumes "fetch url w = (v, None)" and "files v raw_path = Some bytes"
  shows "upstream l rs url w =
    (case (if bytes = [] then Inl EmptyDataError else csv_parser l bytes) of
       Inl e \<Rightarrow> Inl e
     | Inr df \<Rightarrow> transform l rs (entropy w) df)"
proof -
  have "entropy v = entropy w" using fetch_frame(1)[OF assms(1)] by (simp add: same_but_files_dirs_def)
  then show ?thesis
    by (simp add: upstream_def load_of_fetch[OF assms] split: sum.splits)
qed

lemma transform_seeded:
  "transform l (Some sd) ent df = transform l (Some sd) ent' df"
proof -
  have "split l (Some sd) ent = split l (Some sd) ent'"
    by (rule ext) (simp add: Spec2Isabelle.split_def sample_def generator_of_def)
  then show ?thesis by (simp add: transform_def split: sum.splits)
qed

lemma script_cases:
  assumes "script l rs url w = (w', r)"
  obtains (failed) e where "upstream l rs url w = Inl e" and "r = Some e"
      and "files w' train_path = files w train_path"
      and "files w' validation_path = files w validation_path"
      and "files w' test_path = files w test_path"
  | (wrote) tr va te v where "upstream l rs url w = Inr (tr, va, te)"
      and "write_splits l (tr, va, te) v = (w', r)"
      and "files v train_path = files w train_path"
      and "files v validation_path = files w validation_path"
      and "files v test_path = files w test_path"
proof -
  obtain x v where ld: "load l url w = (x, v)" by (cases "load l url w")
  note lf = load_files[OF ld]
  show thesis
  proof (cases x)
    case (Inl e)
    then have "script l rs url w = (v, Some e)" using ld by (simp add: script_load_error)
    then show ?thesis
      using failed[of e] assms Inl ld lf paths_distinct by (simp add: upstream_def)
  next
    case (Inr df)
    show ?thesis
    proof (cases "transform l rs (entropy v) df")
      case e: (Inl e)
      then have "script l rs url w = (v, Some e)"
        using ld Inr by (simp add: script_transform_error)
      then show ?thesis
        using failed[of e] assms Inr e ld lf paths_distinct by (simp add: upstream_def)
    next
      case sp: (Inr sp)
      obtain tr va te where s: "sp = (tr, va, te)" by (cases sp)
      have "script l rs url w = write_splits l (tr, va, te) v"
        using ld Inr sp s by (simp add: script_write)
      then show ?thesis
        using wrote[of tr va te v] assms Inr sp s ld lf paths_distinct by (simp add: upstream_def)
    qed
  qed
qed

lemma script_finished:
  assumes "script l rs url w = (w', None)"
  obtains tr va te where "upstream l rs url w = Inr (tr, va, te)"
    and "files w' train_path = Some (csv_text l tr)"
    and "files w' validation_path = Some (csv_text l va)"
    and "files w' test_path = Some (csv_text l te)"
  using assms
proof (cases rule: script_cases)
  case (failed e)
  then show ?thesis by simp
next
  case (wrote tr va te v)
  from wrote(2) show ?thesis
  proof (cases rule: write_splits_cases)
    case written
    then show ?thesis using that[OF wrote(1)] by simp
  qed simp_all
qed

text \<open>
  C3: what a run computes and writes is a function of the bytes it reads and of the seed.
  Take two runs with the same seed, in two worlds that may differ in everything: the
  files and directories, the location of the input, the state of the global generator.
  If both have downloaded their input and the two copies hold the same bytes, then both
  reach the first \<^verbatim>\<open>to_csv\<close> with the same result, the same exception or the same three
  frames, and if both end without exception the three output files hold the same bytes
  in both. The script is the case of the seed 1729: \<open>main l = script l (Some seed)\<close>.
\<close>

theorem same_input_same_outputs:
  assumes "fetch url1 w1 = (v1, None)" and "fetch url2 w2 = (v2, None)"
    and "files v1 raw_path = files v2 raw_path"
    and "script l (Some sd) url1 w1 = (w1', r1)" and "script l (Some sd) url2 w2 = (w2', r2)"
  shows "upstream l (Some sd) url1 w1 = upstream l (Some sd) url2 w2 \<and>
    (r1 = None \<and> r2 = None \<longrightarrow>
       files w1' train_path = files w2' train_path \<and>
       files w1' validation_path = files w2' validation_path \<and>
       files w1' test_path = files w2' test_path \<and>
       (\<exists>tr va te. upstream l (Some sd) url1 w1 = Inr (tr, va, te) \<and>
          files w1' train_path = Some (csv_text l tr) \<and>
          files w1' validation_path = Some (csv_text l va) \<and>
          files w1' test_path = Some (csv_text l te)))"
proof -
  obtain bytes where b1: "files v1 raw_path = Some bytes"
    using fetch_frame(3)[OF assms(1)] by auto
  then have b2: "files v2 raw_path = Some bytes" using assms(3) by simp
  have u: "upstream l (Some sd) url1 w1 = upstream l (Some sd) url2 w2"
    unfolding upstream_of_fetch[OF assms(1) b1] upstream_of_fetch[OF assms(2) b2]
    using transform_seeded[of l sd "entropy w1" _ "entropy w2"] by (simp split: sum.splits)
  have "files w1' train_path = files w2' train_path \<and>
       files w1' validation_path = files w2' validation_path \<and>
       files w1' test_path = files w2' test_path \<and>
       (\<exists>tr va te. upstream l (Some sd) url1 w1 = Inr (tr, va, te) \<and>
          files w1' train_path = Some (csv_text l tr) \<and>
          files w1' validation_path = Some (csv_text l va) \<and>
          files w1' test_path = Some (csv_text l te))"
    if n: "r1 = None \<and> r2 = None"
  proof -
    obtain tr va te where f1: "upstream l (Some sd) url1 w1 = Inr (tr, va, te)"
      "files w1' train_path = Some (csv_text l tr)"
      "files w1' validation_path = Some (csv_text l va)"
      "files w1' test_path = Some (csv_text l te)"
      using assms(4) n script_finished[of l "Some sd" url1 w1 w1'] by auto
    obtain tr' va' te' where f2: "upstream l (Some sd) url2 w2 = Inr (tr', va', te')"
      "files w2' train_path = Some (csv_text l tr')"
      "files w2' validation_path = Some (csv_text l va')"
      "files w2' test_path = Some (csv_text l te')"
      using assms(5) n script_finished[of l "Some sd" url2 w2 w2'] by auto
    have "tr' = tr" "va' = va" "te' = te" using u f1(1) f2(1) by simp_all
    then show ?thesis using f1 f2 by auto
  qed
  then show ?thesis using u by blast
qed

lemma write_splits_ok:
  assumes "\<not> open_fails train_path w" and "\<not> open_fails validation_path w"
    and "\<not> open_fails test_path w" and "short_write w = Map.empty"
  shows "write_splits l (tr, va, te) w =
    (w\<lparr>files := (files w)(train_path \<mapsto> csv_text l tr, validation_path \<mapsto> csv_text l va,
        test_path \<mapsto> csv_text l te)\<rparr>, None)"
  using assms by (simp add: write_splits_def to_csv_def write_file_def open_fails_def accepted_def)

lemma map_slice: "map f (slice a b xs) = slice a b (map f xs)"
  by (simp add: slice_def take_map drop_map)

lemma split_rows_of:
  assumes "wf_df e" and "generator_of rs ent = g"
    and "is_permutation (permutation l g (len e)) (len e)"
  obtains tr va te where "split l rs ent e = Inr (tr, va, te)"
    and "rows_of tr = take (int_float_mul float_0_7 (len e))
           (map (\<lambda>i. rows_of e ! i) (permutation l g (len e)))"
    and "rows_of va = slice (int_float_mul float_0_7 (len e)) (int_float_mul float_0_9 (len e))
           (map (\<lambda>i. rows_of e ! i) (permutation l g (len e)))"
    and "rows_of te = drop (int_float_mul float_0_9 (len e))
           (map (\<lambda>i. rows_of e ! i) (permutation l g (len e)))"
proof -
  obtain tr va te where sp: "split l rs ent e = Inr (tr, va, te)"
    and tr: "labelled_rows tr = take (int_float_mul float_0_7 (len e)) (shuffled_rows l g e)"
    and va: "labelled_rows va = slice (int_float_mul float_0_7 (len e))
           (int_float_mul float_0_9 (len e)) (shuffled_rows l g e)"
    and te: "labelled_rows te = drop (int_float_mul float_0_9 (len e)) (shuffled_rows l g e)"
    using split_labelled_rows[OF assms] by blast
  have s: "map snd (shuffled_rows l g e) = map (\<lambda>i. rows_of e ! i) (permutation l g (len e))"
    using is_permutation_facts(2)[OF assms(3)]
    by (simp add: shuffled_rows_def nth_labelled_rows nth_rows_of)
  have m: "map snd (labelled_rows x) = rows_of x" for x by (rule rows_of_labelled_rows)
  have tk: "map snd (take a xs) = take a (map snd xs)" for a and xs :: "(nat \<times> cell list) list"
    by (simp add: take_map)
  have dr: "map snd (drop a xs) = drop a (map snd xs)" for a and xs :: "(nat \<times> cell list) list"
    by (simp add: drop_map)
  have "rows_of tr = take (int_float_mul float_0_7 (len e))
           (map (\<lambda>i. rows_of e ! i) (permutation l g (len e)))"
    by (subst m[of tr, symmetric], subst tr, subst tk, subst s, rule refl)
  moreover have "rows_of va = slice (int_float_mul float_0_7 (len e)) (int_float_mul float_0_9 (len e))
           (map (\<lambda>i. rows_of e ! i) (permutation l g (len e)))"
    by (subst m[of va, symmetric], subst va, subst map_slice, subst s, rule refl)
  moreover have "rows_of te = drop (int_float_mul float_0_9 (len e))
           (map (\<lambda>i. rows_of e ! i) (permutation l g (len e)))"
    by (subst m[of te, symmetric], subst te, subst dr, subst s, rule refl)
  ultimately show thesis using that[OF sp] by simp
qed

lemma int_float_mul_4: "int_float_mul float_0_7 4 = 2" "int_float_mul float_0_9 4 = 3"
  by (simp_all add: int_float_mul_def float_0_7_def float_0_9_def round_double_def bit_length_def
      compute_floorlog Let_def)

lemma int_float_mul_2: "int_float_mul float_0_7 2 = 1" "int_float_mul float_0_9 2 = 1"
  by (simp_all add: int_float_mul_def float_0_7_def float_0_9_def round_double_def bit_length_def
      compute_floorlog Let_def)

lemma str_nat_sample: "str_nat 137 = ''137''" "str_nat 128 = ''128''" "str_nat 84 = ''84''"
  "str_nat 107 = ''107''" "str_nat 0 = ''0''" "str_nat 1 = ''1''"
  by simp_all

lemma rows_sample_encoded:
  "rows_of sample_encoded =
     [[I 0, I 128, I 0, I 1, I 0, I 1], [I 1, I 107, I 1, I 0, I 1, I 0],
      [I 0, I 137, I 0, I 1, I 1, I 0], [I 1, I 84, I 1, I 0, I 0, I 1]]"
  by (simp add: rows_of_def len_def sample_encoded_def upt_rec)

lemma csv_line_sample:
  "csv_line l [I 0, I 128, I 0, I 1, I 0, I 1] = ''0,128,0,1,0,1'' @ [CHR 0x0A]"
  "csv_line l [I 1, I 107, I 1, I 0, I 1, I 0] = ''1,107,1,0,1,0'' @ [CHR 0x0A]"
  "csv_line l [I 0, I 137, I 0, I 1, I 1, I 0] = ''0,137,0,1,1,0'' @ [CHR 0x0A]"
  "csv_line l [I 1, I 84, I 1, I 0, I 0, I 1] = ''1,84,1,0,0,1'' @ [CHR 0x0A]"
  by (simp_all add: csv_line_def csv_cell_def level_str_def str_int_def str_nat_sample)

lemma wf_sample_encoded: "wf_df sample_encoded" "len sample_encoded = 4"
  by (simp_all add: wf_df_def len_def sample_encoded_def)

lemma is_permutation_0321: "is_permutation [0, 3, 2, 1] 4" "is_permutation [1, 2, 3, 0] 4"
  by (simp_all add: is_permutation_def upt_rec eval_nat_numeral del: mset_upt)

lemma transform_sample_frame:
  "transform l rs ent sample_frame = split l rs ent sample_encoded"
  by (simp only: transform_def clean_sample encode_sample sum.case)

lemma split_sample_0321:
  assumes "permutation l (generator_of rs ent) 4 = [0, 3, 2, 1]"
  obtains tr va te where "split l rs ent sample_encoded = Inr (tr, va, te)"
    and "csv_text l tr = ''0,128,0,1,0,1'' @ [CHR 0x0A] @ ''1,84,1,0,0,1'' @ [CHR 0x0A]"
    and "csv_text l va = ''0,137,0,1,1,0'' @ [CHR 0x0A]"
    and "csv_text l te = ''1,107,1,0,1,0'' @ [CHR 0x0A]"
proof -
  have p: "is_permutation (permutation l (generator_of rs ent) (len sample_encoded)) (len sample_encoded)"
    unfolding wf_sample_encoded(2) assms by (rule is_permutation_0321(1))
  obtain tr va te where sp: "split l rs ent sample_encoded = Inr (tr, va, te)"
    and r: "rows_of tr = take (int_float_mul float_0_7 (len sample_encoded))
           (map (\<lambda>i. rows_of sample_encoded ! i) (permutation l (generator_of rs ent) (len sample_encoded)))"
      "rows_of va = slice (int_float_mul float_0_7 (len sample_encoded)) (int_float_mul float_0_9 (len sample_encoded))
           (map (\<lambda>i. rows_of sample_encoded ! i) (permutation l (generator_of rs ent) (len sample_encoded)))"
      "rows_of te = drop (int_float_mul float_0_9 (len sample_encoded))
           (map (\<lambda>i. rows_of sample_encoded ! i) (permutation l (generator_of rs ent) (len sample_encoded)))"
    using split_rows_of[OF wf_sample_encoded(1) refl p] by blast
  note r' = r[unfolded wf_sample_encoded(2) assms int_float_mul_4 rows_sample_encoded]
  show thesis
    by (rule that[OF sp]) (simp_all add: csv_text_def r' slice_def csv_line_sample)
qed

lemma split_sample_1230:
  assumes "permutation l (generator_of rs ent) 4 = [1, 2, 3, 0]"
  obtains tr va te where "split l rs ent sample_encoded = Inr (tr, va, te)"
    and "csv_text l tr = ''1,107,1,0,1,0'' @ [CHR 0x0A] @ ''0,137,0,1,1,0'' @ [CHR 0x0A]"
    and "csv_text l va = ''1,84,1,0,0,1'' @ [CHR 0x0A]"
    and "csv_text l te = ''0,128,0,1,0,1'' @ [CHR 0x0A]"
proof -
  have p: "is_permutation (permutation l (generator_of rs ent) (len sample_encoded)) (len sample_encoded)"
    unfolding wf_sample_encoded(2) assms by (rule is_permutation_0321(2))
  obtain tr va te where sp: "split l rs ent sample_encoded = Inr (tr, va, te)"
    and r: "rows_of tr = take (int_float_mul float_0_7 (len sample_encoded))
           (map (\<lambda>i. rows_of sample_encoded ! i) (permutation l (generator_of rs ent) (len sample_encoded)))"
      "rows_of va = slice (int_float_mul float_0_7 (len sample_encoded)) (int_float_mul float_0_9 (len sample_encoded))
           (map (\<lambda>i. rows_of sample_encoded ! i) (permutation l (generator_of rs ent) (len sample_encoded)))"
      "rows_of te = drop (int_float_mul float_0_9 (len sample_encoded))
           (map (\<lambda>i. rows_of sample_encoded ! i) (permutation l (generator_of rs ent) (len sample_encoded)))"
    using split_rows_of[OF wf_sample_encoded(1) refl p] by blast
  note r' = r[unfolded wf_sample_encoded(2) assms int_float_mul_4 rows_sample_encoded]
  show thesis
    by (rule that[OF sp]) (simp_all add: csv_text_def r' slice_def csv_line_sample)
qed

lemma sample_lib_permutation:
  "permutation (sample_lib bytes df p) (generator_of (Some seed) ent) n = p"
  "permutation (sample_lib bytes df p) (generator_of None 0) n = p"
  "permutation (sample_lib bytes df p) (generator_of None 1) n = rev p"
  by (simp_all add: sample_lib_def generator_of_def seed_def)

lemma sample_csv_not_empty: "sample_csv \<noteq> []" "small_csv \<noteq> []"
  by (simp_all add: sample_csv_def small_csv_def)

lemma stale_world_fetch:
  "fetch sample_url (stale_world bytes) =
    ((stale_world bytes)\<lparr>dirs := insert ''/opt/ml/processing/data'' (dirs (stale_world bytes)),
       files := (files (stale_world bytes))(raw_path \<mapsto> bytes)\<rparr>, None)"
  by (rule fetch_sample_url)
    (simp_all add: stale_world_def sample_world_def raw_path_def train_path_def base_dir_def)

lemma sample_world_writable:
  assumes "w = sample_world bytes \<or> w = stale_world bytes"
  shows "\<not> open_fails train_path
      (w\<lparr>dirs := insert ''/opt/ml/processing/data'' (dirs w), files := (files w)(raw_path \<mapsto> bytes)\<rparr>)"
    and "\<not> open_fails validation_path
      (w\<lparr>dirs := insert ''/opt/ml/processing/data'' (dirs w), files := (files w)(raw_path \<mapsto> bytes)\<rparr>)"
    and "\<not> open_fails test_path
      (w\<lparr>dirs := insert ''/opt/ml/processing/data'' (dirs w), files := (files w)(raw_path \<mapsto> bytes)\<rparr>)"
    and "short_write
      (w\<lparr>dirs := insert ''/opt/ml/processing/data'' (dirs w), files := (files w)(raw_path \<mapsto> bytes)\<rparr>)
      = Map.empty"
  using assms
  by (simp_all only: open_fails_def dirname_paths)
    (auto simp: stale_world_def sample_world_def train_path_def validation_path_def
      test_path_def base_dir_def)

lemma script_sample_world:
  assumes "w = sample_world bytes \<or> w = stale_world bytes" and "bytes \<noteq> []"
    and "transform (sample_lib bytes df p) rs (entropy w) df = Inr (tr, va, te)"
  shows "script (sample_lib bytes df p) rs sample_url w =
    (w\<lparr>dirs := insert ''/opt/ml/processing/data'' (dirs w),
       files := (files w)(raw_path \<mapsto> bytes, train_path \<mapsto> csv_text (sample_lib bytes df p) tr,
         validation_path \<mapsto> csv_text (sample_lib bytes df p) va,
         test_path \<mapsto> csv_text (sample_lib bytes df p) te)\<rparr>, None)"
proof -
  let ?v = "w\<lparr>dirs := insert ''/opt/ml/processing/data'' (dirs w), files := (files w)(raw_path \<mapsto> bytes)\<rparr>"
  have f: "fetch sample_url w = (?v, None)"
    using assms(1) sample_world_fetch[of bytes] stale_world_fetch[of bytes] by auto
  have ld: "load (sample_lib bytes df p) sample_url w = (Inr df, ?v)"
    using assms(2) f by (rule load_sample) simp
  have "script (sample_lib bytes df p) rs sample_url w = write_splits (sample_lib bytes df p) (tr, va, te) ?v"
    using ld by (rule script_write) (simp add: assms(3))
  then show ?thesis
    by (simp add: write_splits_ok[OF sample_world_writable[OF assms(1)]])
qed

theorem same_input_same_outputs_witness:
  "snd (main (sample_lib sample_csv sample_frame [0, 3, 2, 1]) sample_url (sample_world sample_csv)) = None \<and>
   snd (main (sample_lib sample_csv sample_frame [0, 3, 2, 1]) sample_url (stale_world sample_csv)) = None \<and>
   entropy (sample_world sample_csv) \<noteq> entropy (stale_world sample_csv) \<and>
   files (sample_world sample_csv) train_path \<noteq> files (stale_world sample_csv) train_path \<and>
   files (fst (main (sample_lib sample_csv sample_frame [0, 3, 2, 1]) sample_url (sample_world sample_csv))) train_path =
     files (fst (main (sample_lib sample_csv sample_frame [0, 3, 2, 1]) sample_url (stale_world sample_csv))) train_path \<and>
   files (fst (main (sample_lib sample_csv sample_frame [0, 3, 2, 1]) sample_url (sample_world sample_csv))) validation_path =
     files (fst (main (sample_lib sample_csv sample_frame [0, 3, 2, 1]) sample_url (stale_world sample_csv))) validation_path \<and>
   files (fst (main (sample_lib sample_csv sample_frame [0, 3, 2, 1]) sample_url (sample_world sample_csv))) test_path =
     files (fst (main (sample_lib sample_csv sample_frame [0, 3, 2, 1]) sample_url (stale_world sample_csv))) test_path \<and>
   files (fst (main (sample_lib sample_csv sample_frame [0, 3, 2, 1]) sample_url (stale_world sample_csv))) train_path =
     Some (''0,128,0,1,0,1'' @ [CHR 0x0A] @ ''1,84,1,0,0,1'' @ [CHR 0x0A])"
proof -
  let ?l = "sample_lib sample_csv sample_frame [0, 3, 2, 1]"
  let ?w1 = "sample_world sample_csv"
  let ?w2 = "stale_world sample_csv"
  obtain tr va te where t1: "transform ?l (Some seed) (entropy ?w1) sample_frame = Inr (tr, va, te)"
    and c1: "csv_text ?l tr = ''0,128,0,1,0,1'' @ [CHR 0x0A] @ ''1,84,1,0,0,1'' @ [CHR 0x0A]"
    unfolding transform_sample_frame
    using split_sample_0321[OF sample_lib_permutation(1)] by metis
  obtain tr' va' te' where t2: "transform ?l (Some seed) (entropy ?w2) sample_frame = Inr (tr', va', te')"
    unfolding transform_sample_frame
    using split_sample_0321[OF sample_lib_permutation(1)] by metis
  have m1: "script ?l (Some seed) sample_url ?w1 =
      (fst (script ?l (Some seed) sample_url ?w1), None)"
    by (subst (2) script_sample_world[OF _ sample_csv_not_empty(1) t1], simp)
       (subst script_sample_world[OF _ sample_csv_not_empty(1) t1], simp_all)
  have m2: "script ?l (Some seed) sample_url ?w2 =
      (fst (script ?l (Some seed) sample_url ?w2), None)"
    by (subst (2) script_sample_world[OF _ sample_csv_not_empty(1) t2], simp)
       (subst script_sample_world[OF _ sample_csv_not_empty(1) t2], simp_all)
  have raw: "files (fst (fetch sample_url ?w1)) raw_path = files (fst (fetch sample_url ?w2)) raw_path"
    by (simp add: sample_world_fetch stale_world_fetch)
  have f1: "fetch sample_url ?w1 = (fst (fetch sample_url ?w1), None)"
    by (simp add: sample_world_fetch)
  have f2: "fetch sample_url ?w2 = (fst (fetch sample_url ?w2), None)"
    by (simp add: stale_world_fetch)
  note r = same_input_same_outputs[OF f1 f2 raw m1 m2]
  have eq: "files (fst (script ?l (Some seed) sample_url ?w1)) train_path =
      files (fst (script ?l (Some seed) sample_url ?w2)) train_path"
    "files (fst (script ?l (Some seed) sample_url ?w1)) validation_path =
      files (fst (script ?l (Some seed) sample_url ?w2)) validation_path"
    "files (fst (script ?l (Some seed) sample_url ?w1)) test_path =
      files (fst (script ?l (Some seed) sample_url ?w2)) test_path"
    using r by simp_all
  have d: "entropy ?w1 \<noteq> entropy ?w2" "files ?w1 train_path \<noteq> files ?w2 train_path"
    by (simp_all add: sample_world_def stale_world_def)
  have s: "snd (script ?l (Some seed) sample_url ?w1) = None"
    "snd (script ?l (Some seed) sample_url ?w2) = None"
    using m1 m2 by (metis snd_conv)+
  have "files (fst (script ?l (Some seed) sample_url ?w1)) train_path =
      Some (''0,128,0,1,0,1'' @ [CHR 0x0A] @ ''1,84,1,0,0,1'' @ [CHR 0x0A])"
    using c1 by (subst script_sample_world[OF _ sample_csv_not_empty(1) t1], simp)
      (simp add: paths_distinct)
  then have b: "files (fst (script ?l (Some seed) sample_url ?w2)) train_path =
      Some (''0,128,0,1,0,1'' @ [CHR 0x0A] @ ''1,84,1,0,0,1'' @ [CHR 0x0A])"
    unfolding eq(1) .
  show ?thesis
    unfolding main_def using s d eq b by (intro conjI)
qed

text \<open>
  The seed is what makes this so. The same two runs with \<^verbatim>\<open>random_state=None\<close> draw their
  permutation from the global generator, whose state differs between the two worlds, and
  write different rows to \<^verbatim>\<open>train.csv\<close>.
\<close>

lemma unseeded_sample_depends_on_entropy:
  "files (fst (script (sample_lib sample_csv sample_frame [0, 3, 2, 1]) None sample_url
      (sample_world sample_csv))) train_path =
     Some (''0,128,0,1,0,1'' @ [CHR 0x0A] @ ''1,84,1,0,0,1'' @ [CHR 0x0A])"
  "files (fst (script (sample_lib sample_csv sample_frame [0, 3, 2, 1]) None sample_url
      (stale_world sample_csv))) train_path =
     Some (''1,107,1,0,1,0'' @ [CHR 0x0A] @ ''0,137,0,1,1,0'' @ [CHR 0x0A])"
proof -
  let ?l = "sample_lib sample_csv sample_frame [0, 3, 2, 1]"
  let ?w1 = "sample_world sample_csv"
  obtain tr va te where t1: "transform ?l None 0 sample_frame = Inr (tr, va, te)"
    and c1: "csv_text ?l tr = ''0,128,0,1,0,1'' @ [CHR 0x0A] @ ''1,84,1,0,0,1'' @ [CHR 0x0A]"
    unfolding transform_sample_frame
    using split_sample_0321[OF sample_lib_permutation(2)] by metis
  have pr: "permutation ?l (generator_of None 1) 4 = [1, 2, 3, 0]"
    by (simp only: sample_lib_permutation(3)) simp
  obtain tr' va' te' where t2: "transform ?l None 1 sample_frame = Inr (tr', va', te')"
    and c2: "csv_text ?l tr' = ''1,107,1,0,1,0'' @ [CHR 0x0A] @ ''0,137,0,1,1,0'' @ [CHR 0x0A]"
    unfolding transform_sample_frame
    using split_sample_1230[OF pr] by metis
  have e: "entropy ?w1 = 0" by (simp add: sample_world_def)
  have t1': "transform ?l None (entropy ?w1) sample_frame = Inr (tr, va, te)"
    unfolding e by (rule t1)
  show "files (fst (script ?l None sample_url ?w1)) train_path =
     Some (''0,128,0,1,0,1'' @ [CHR 0x0A] @ ''1,84,1,0,0,1'' @ [CHR 0x0A])"
    using c1 by (subst script_sample_world[OF _ sample_csv_not_empty(1) t1'], simp)
      (simp add: paths_distinct)
  have e': "entropy (stale_world sample_csv) = 1" by (simp add: stale_world_def)
  have t2': "transform ?l None (entropy (stale_world sample_csv)) sample_frame = Inr (tr', va', te')"
    unfolding e' by (rule t2)
  show "files (fst (script ?l None sample_url (stale_world sample_csv))) train_path =
     Some (''1,107,1,0,1,0'' @ [CHR 0x0A] @ ''0,137,0,1,1,0'' @ [CHR 0x0A])"
    using c2 by (subst script_sample_world[OF _ sample_csv_not_empty(1) t2'], simp)
      (simp add: paths_distinct)
qed

lemma write_file_failed:
  assumes "write_file p content w = (w', Some e)"
  shows "files w' p = files w p \<or> (\<exists>k. files w' p = Some (take k content))"
  using assms by (auto simp: write_file_def accepted_def split: if_splits option.splits)

lemma write_splits_outcome:
  assumes "write_splits l (tr, va, te) w = (w', r)"
  shows "(r = None \<and> files w' train_path = Some (csv_text l tr) \<and>
       files w' validation_path = Some (csv_text l va) \<and>
       files w' test_path = Some (csv_text l te)) \<or>
    (r = Some (OSError train_path) \<and>
       (files w' train_path = files w train_path \<or>
        (\<exists>k. files w' train_path = Some (take k (csv_text l tr)))) \<and>
       files w' validation_path = files w validation_path \<and>
       files w' test_path = files w test_path) \<or>
    (r = Some (OSError validation_path) \<and> files w' train_path = Some (csv_text l tr) \<and>
       (files w' validation_path = files w validation_path \<or>
        (\<exists>k. files w' validation_path = Some (take k (csv_text l va)))) \<and>
       files w' test_path = files w test_path) \<or>
    (r = Some (OSError test_path) \<and> files w' train_path = Some (csv_text l tr) \<and>
       files w' validation_path = Some (csv_text l va) \<and>
       (files w' test_path = files w test_path \<or>
        (\<exists>k. files w' test_path = Some (take k (csv_text l te)))))"
proof -
  obtain w1 r1 where a: "write_file train_path (csv_text l tr) w = (w1, r1)"
    by (cases "write_file train_path (csv_text l tr) w")
  note fa = write_file_frame[OF a]
  show ?thesis
  proof (cases r1)
    case (Some e)
    then have w': "w' = w1" "r = Some (OSError train_path)"
      using assms a fa(5) by (auto simp: write_splits_def to_csv_def)
    have "files w1 train_path = files w train_path \<or>
        (\<exists>k. files w1 train_path = Some (take k (csv_text l tr)))"
      using a Some write_file_failed by simp
    then show ?thesis
      using w' fa(3)[of validation_path] fa(3)[of test_path] paths_distinct by simp
  next
    case None
    obtain w2 r2 where b: "write_file validation_path (csv_text l va) w1 = (w2, r2)"
      by (cases "write_file validation_path (csv_text l va) w1")
    note fb = write_file_frame[OF b]
    have t2: "files w2 train_path = Some (csv_text l tr)"
      using fa(4) fb(3)[of train_path] None paths_distinct by simp
    show ?thesis
    proof (cases r2)
      case (Some e)
      then have w': "w' = w2" "r = Some (OSError validation_path)"
        using assms a b None fb(5) by (auto simp: write_splits_def to_csv_def)
      have "files w2 validation_path = files w1 validation_path \<or>
          (\<exists>k. files w2 validation_path = Some (take k (csv_text l va)))"
        using b Some write_file_failed by simp
      then have "files w2 validation_path = files w validation_path \<or>
          (\<exists>k. files w2 validation_path = Some (take k (csv_text l va)))"
        using fa(3)[of validation_path] paths_distinct by simp
      moreover have "files w2 test_path = files w test_path"
        using fa(3)[of test_path] fb(3)[of test_path] paths_distinct by simp
      ultimately show ?thesis using w' t2 by simp
    next
      case n2: None
      have c: "write_file test_path (csv_text l te) w2 = (w', r)"
        using assms a b None n2 by (simp add: write_splits_def to_csv_def)
      note fc = write_file_frame[OF c]
      have t: "files w' train_path = Some (csv_text l tr)"
        using t2 fc(3)[of train_path] paths_distinct by simp
      have v: "files w' validation_path = Some (csv_text l va)"
        using fb(4) fc(3)[of validation_path] n2 paths_distinct by simp
      show ?thesis
      proof (cases r)
        case None
        then show ?thesis using t v fc(4) by simp
      next
        case (Some e)
        then have e: "r = Some (OSError test_path)" using fc(5) by simp
        have "files w' test_path = files w2 test_path \<or>
            (\<exists>k. files w' test_path = Some (take k (csv_text l te)))"
          using c Some write_file_failed by simp
        then have "files w' test_path = files w test_path \<or>
            (\<exists>k. files w' test_path = Some (take k (csv_text l te)))"
          using fa(3)[of test_path] fb(3)[of test_path] paths_distinct by simp
        then show ?thesis using e t v by simp
      qed
    qed
  qed
qed

lemma write_splits_second_fails:
  assumes "\<not> open_fails train_path w" and "short_write w = Map.empty"
    and "open_fails validation_path w"
  shows "write_splits l (tr, va, te) w =
    (w\<lparr>files := (files w)(train_path \<mapsto> csv_text l tr)\<rparr>, Some (OSError validation_path))"
  using assms by (simp add: write_splits_def to_csv_def write_file_def open_fails_def accepted_def)

lemma train_only_world_fetch:
  "fetch sample_url (train_only_world bytes) =
    ((train_only_world bytes)\<lparr>dirs := insert ''/opt/ml/processing/data'' (dirs (train_only_world bytes)),
       files := (files (train_only_world bytes))(raw_path \<mapsto> bytes)\<rparr>, None)"
  by (rule fetch_sample_url)
    (simp_all add: train_only_world_def sample_world_def raw_path_def base_dir_def)

lemma train_only_world_writable:
  "\<not> open_fails train_path
      ((train_only_world bytes)\<lparr>dirs := insert ''/opt/ml/processing/data'' (dirs (train_only_world bytes)),
         files := (files (train_only_world bytes))(raw_path \<mapsto> bytes)\<rparr>)"
  "short_write
      ((train_only_world bytes)\<lparr>dirs := insert ''/opt/ml/processing/data'' (dirs (train_only_world bytes)),
         files := (files (train_only_world bytes))(raw_path \<mapsto> bytes)\<rparr>) = Map.empty"
  "open_fails validation_path
      ((train_only_world bytes)\<lparr>dirs := insert ''/opt/ml/processing/data'' (dirs (train_only_world bytes)),
         files := (files (train_only_world bytes))(raw_path \<mapsto> bytes)\<rparr>)"
  by (simp_all only: open_fails_def dirname_paths)
    (auto simp: train_only_world_def sample_world_def train_path_def validation_path_def
      test_path_def base_dir_def)

lemma script_train_only_world:
  assumes "bytes \<noteq> []"
    and "transform (sample_lib bytes df p) rs (entropy (train_only_world bytes)) df = Inr (tr, va, te)"
  shows "script (sample_lib bytes df p) rs sample_url (train_only_world bytes) =
    ((train_only_world bytes)\<lparr>dirs := insert ''/opt/ml/processing/data'' (dirs (train_only_world bytes)),
       files := (files (train_only_world bytes))(raw_path \<mapsto> bytes,
         train_path \<mapsto> csv_text (sample_lib bytes df p) tr)\<rparr>, Some (OSError validation_path))"
    and "upstream (sample_lib bytes df p) rs sample_url (train_only_world bytes) = Inr (tr, va, te)"
proof -
  let ?w = "train_only_world bytes"
  let ?v = "?w\<lparr>dirs := insert ''/opt/ml/processing/data'' (dirs ?w), files := (files ?w)(raw_path \<mapsto> bytes)\<rparr>"
  have ld: "load (sample_lib bytes df p) sample_url ?w = (Inr df, ?v)"
    using assms(1) train_only_world_fetch by (rule load_sample) simp
  have "script (sample_lib bytes df p) rs sample_url ?w = write_splits (sample_lib bytes df p) (tr, va, te) ?v"
    using ld by (rule script_write) (simp add: assms(2))
  then show "script (sample_lib bytes df p) rs sample_url ?w =
    (?w\<lparr>dirs := insert ''/opt/ml/processing/data'' (dirs ?w),
       files := (files ?w)(raw_path \<mapsto> bytes,
         train_path \<mapsto> csv_text (sample_lib bytes df p) tr)\<rparr>, Some (OSError validation_path))"
    by (simp add: write_splits_second_fails[OF train_only_world_writable])
  show "upstream (sample_lib bytes df p) rs sample_url ?w = Inr (tr, va, te)"
    using assms(2) by (simp add: upstream_def ld)
qed

lemma train_only_world_files: "files (train_only_world bytes) p = None"
  by (simp add: train_only_world_def sample_world_def)

text \<open>
  C7 as it is stated fails: the script writes the three files one after the other, and a
  write can fail. Here only the train directory exists: \<^verbatim>\<open>train.csv\<close> is written, the
  second \<^verbatim>\<open>to_csv\<close> raises, and the run ends with one of the three files: the rows at the
  first two positions of the permutation, here 0 and 3.
\<close>

theorem partial_output_counterexample:
  "snd (main (sample_lib sample_csv sample_frame [0, 3, 2, 1]) sample_url
      (train_only_world sample_csv)) = Some (OSError validation_path) \<and>
   files (fst (main (sample_lib sample_csv sample_frame [0, 3, 2, 1]) sample_url
      (train_only_world sample_csv))) train_path =
     Some (''0,128,0,1,0,1'' @ [CHR 0x0A] @ ''1,84,1,0,0,1'' @ [CHR 0x0A]) \<and>
   files (fst (main (sample_lib sample_csv sample_frame [0, 3, 2, 1]) sample_url
      (train_only_world sample_csv))) validation_path = None \<and>
   files (fst (main (sample_lib sample_csv sample_frame [0, 3, 2, 1]) sample_url
      (train_only_world sample_csv))) test_path = None"
proof -
  let ?l = "sample_lib sample_csv sample_frame [0, 3, 2, 1]"
  obtain tr va te where
    t: "transform ?l (Some seed) (entropy (train_only_world sample_csv)) sample_frame = Inr (tr, va, te)"
    and c: "csv_text ?l tr = ''0,128,0,1,0,1'' @ [CHR 0x0A] @ ''1,84,1,0,0,1'' @ [CHR 0x0A]"
    unfolding transform_sample_frame
    using split_sample_0321[OF sample_lib_permutation(1)] by metis
  show ?thesis
    unfolding main_def script_train_only_world(1)[OF sample_csv_not_empty(1) t]
    using c by (simp add: train_only_world_files paths_distinct paths_distinct[symmetric])
qed

text \<open>
  Which permutation the generator draws makes no difference to this: whatever the order
  of the four rows, the run ends in the second \<^verbatim>\<open>to_csv\<close> with \<^verbatim>\<open>train.csv\<close> written and
  the other two files missing.
\<close>

lemma partial_output_any_permutation:
  assumes "is_permutation p 4"
  shows "snd (main (sample_lib sample_csv sample_frame p) sample_url
      (train_only_world sample_csv)) = Some (OSError validation_path)"
    and "files (fst (main (sample_lib sample_csv sample_frame p) sample_url
      (train_only_world sample_csv))) train_path \<noteq> None"
    and "files (fst (main (sample_lib sample_csv sample_frame p) sample_url
      (train_only_world sample_csv))) validation_path = None"
    and "files (fst (main (sample_lib sample_csv sample_frame p) sample_url
      (train_only_world sample_csv))) test_path = None"
proof -
  let ?l = "sample_lib sample_csv sample_frame p"
  have "is_permutation (permutation ?l (generator_of (Some seed)
      (entropy (train_only_world sample_csv))) (len sample_encoded)) (len sample_encoded)"
    unfolding wf_sample_encoded(2) sample_lib_permutation(1) by (rule assms)
  then obtain sh where
    "split ?l (Some seed) (entropy (train_only_world sample_csv)) sample_encoded =
       Inr (iloc_slice 0 (int_float_mul float_0_7 (len sample_encoded)) sh,
         iloc_slice (int_float_mul float_0_7 (len sample_encoded))
           (int_float_mul float_0_9 (len sample_encoded)) sh,
         iloc_slice (int_float_mul float_0_9 (len sample_encoded)) (len sh) sh)"
    using split_ok[OF refl] by blast
  then obtain tr va te where
    t: "transform ?l (Some seed) (entropy (train_only_world sample_csv)) sample_frame = Inr (tr, va, te)"
    unfolding transform_sample_frame by blast
  note m = script_train_only_world(1)[OF sample_csv_not_empty(1) t]
  show "snd (main ?l sample_url (train_only_world sample_csv)) = Some (OSError validation_path)"
    unfolding main_def m by simp
  show "files (fst (main ?l sample_url (train_only_world sample_csv))) train_path \<noteq> None"
    unfolding main_def m by simp
  show "files (fst (main ?l sample_url (train_only_world sample_csv))) validation_path = None"
    unfolding main_def m
    by (simp add: train_only_world_files paths_distinct paths_distinct[symmetric])
  show "files (fst (main ?l sample_url (train_only_world sample_csv))) test_path = None"
    unfolding main_def m
    by (simp add: train_only_world_files paths_distinct paths_distinct[symmetric])
qed

text \<open>
  C7, amended. The three files are written one after the other, and the run stops at the
  first exception. An exception raised before the first \<^verbatim>\<open>to_csv\<close> (in loading, cleaning,
  encoding or splitting) ends the run with the three files as they were. Once the three
  frames are there, the run ends in one of four ways: without exception, all three files
  written in full; or with the exception of the first, second or third \<^verbatim>\<open>to_csv\<close>, the
  files before it written in full, the files after it as they were, and the file of the
  failed call either as it was or holding the first bytes of its text.
\<close>

theorem writes_stop_at_first_failure:
  assumes "main l url w = (w', r)"
  shows "(\<forall>e. upstream l (Some seed) url w = Inl e \<longrightarrow>
       r = Some e \<and> files w' train_path = files w train_path \<and>
       files w' validation_path = files w validation_path \<and>
       files w' test_path = files w test_path) \<and>
    (\<forall>tr va te. upstream l (Some seed) url w = Inr (tr, va, te) \<longrightarrow>
       (r = None \<and> files w' train_path = Some (csv_text l tr) \<and>
          files w' validation_path = Some (csv_text l va) \<and>
          files w' test_path = Some (csv_text l te)) \<or>
       (r = Some (OSError train_path) \<and>
          (files w' train_path = files w train_path \<or>
           (\<exists>k. files w' train_path = Some (take k (csv_text l tr)))) \<and>
          files w' validation_path = files w validation_path \<and>
          files w' test_path = files w test_path) \<or>
       (r = Some (OSError validation_path) \<and> files w' train_path = Some (csv_text l tr) \<and>
          (files w' validation_path = files w validation_path \<or>
           (\<exists>k. files w' validation_path = Some (take k (csv_text l va)))) \<and>
          files w' test_path = files w test_path) \<or>
       (r = Some (OSError test_path) \<and> files w' train_path = Some (csv_text l tr) \<and>
          files w' validation_path = Some (csv_text l va) \<and>
          (files w' test_path = files w test_path \<or>
           (\<exists>k. files w' test_path = Some (take k (csv_text l te))))))"
proof -
  have s: "script l (Some seed) url w = (w', r)" using assms by (simp add: main_def)
  from s show ?thesis
  proof (cases rule: script_cases)
    case (failed e)
    then show ?thesis by simp
  next
    case (wrote tr va te v)
    show ?thesis
      using write_splits_outcome[OF wrote(2)] wrote(1,3,4,5) by simp
  qed
qed

theorem writes_stop_at_first_failure_witness:
  "(\<exists>tr va te. upstream (sample_lib sample_csv sample_frame [0, 3, 2, 1]) (Some seed) sample_url
        (train_only_world sample_csv) = Inr (tr, va, te) \<and>
      files (fst (main (sample_lib sample_csv sample_frame [0, 3, 2, 1]) sample_url
        (train_only_world sample_csv))) train_path =
          Some (csv_text (sample_lib sample_csv sample_frame [0, 3, 2, 1]) tr)) \<and>
   snd (main (sample_lib sample_csv sample_frame [0, 3, 2, 1]) sample_url
      (train_only_world sample_csv)) = Some (OSError validation_path) \<and>
   files (fst (main (sample_lib sample_csv sample_frame [0, 3, 2, 1]) sample_url
      (train_only_world sample_csv))) test_path = files (train_only_world sample_csv) test_path"
proof -
  let ?l = "sample_lib sample_csv sample_frame [0, 3, 2, 1]"
  let ?w = "train_only_world sample_csv"
  obtain tr va te where
    t: "transform ?l (Some seed) (entropy ?w) sample_frame = Inr (tr, va, te)"
    unfolding transform_sample_frame
    using split_sample_0321[OF sample_lib_permutation(1)] by metis
  note s = script_train_only_world[OF sample_csv_not_empty(1) t]
  have r: "snd (main ?l sample_url ?w) = Some (OSError validation_path)"
    unfolding main_def s(1) by simp
  have m: "main ?l sample_url ?w = (fst (main ?l sample_url ?w), Some (OSError validation_path))"
    using r by (metis prod.collapse)
  have d: "Some (OSError validation_path) \<noteq> None"
    "Some (OSError validation_path) \<noteq> Some (OSError train_path)"
    "Some (OSError validation_path) \<noteq> Some (OSError test_path)"
    using paths_distinct by simp_all
  from writes_stop_at_first_failure[OF m, THEN conjunct2, rule_format, OF s(2)] d
  have "files (fst (main ?l sample_url ?w)) train_path = Some (csv_text ?l tr) \<and>
      files (fst (main ?l sample_url ?w)) test_path = files ?w test_path"
    by simp
  then show ?thesis using s(2) r by simp
qed

subsection \<open>The row counts of the splits\<close>

lemma length_shuffled_rows:
  "is_permutation (permutation l g (len df)) (len df) \<Longrightarrow> length (shuffled_rows l g df) = len df"
  using is_permutation_facts(1) by (simp add: shuffled_rows_def)

lemma split_sizes:
  assumes "wf_df e" and "generator_of rs ent = g"
    and "is_permutation (permutation l g (len e)) (len e)"
  obtains tr va te where "split l rs ent e = Inr (tr, va, te)"
    and "len tr = int_float_mul float_0_7 (len e)"
    and "len va = int_float_mul float_0_9 (len e) - int_float_mul float_0_7 (len e)"
    and "len te = len e - int_float_mul float_0_9 (len e)"
proof -
  obtain tr va te where sp: "split l rs ent e = Inr (tr, va, te)"
    and tr: "labelled_rows tr = take (int_float_mul float_0_7 (len e)) (shuffled_rows l g e)"
    and va: "labelled_rows va = slice (int_float_mul float_0_7 (len e))
           (int_float_mul float_0_9 (len e)) (shuffled_rows l g e)"
    and te: "labelled_rows te = drop (int_float_mul float_0_9 (len e)) (shuffled_rows l g e)"
    using split_labelled_rows[OF assms] by blast
  note n = length_shuffled_rows[OF assms(3)]
  note le = split_points_in_range[of "len e"]
  have "length (labelled_rows tr) = int_float_mul float_0_7 (len e)"
    unfolding tr using le by (simp add: n)
  moreover have "length (labelled_rows va) =
      int_float_mul float_0_9 (len e) - int_float_mul float_0_7 (len e)"
    unfolding va using le by (simp add: n length_slice)
  moreover have "length (labelled_rows te) = len e - int_float_mul float_0_9 (len e)"
    unfolding te by (simp add: n)
  ultimately show thesis using that[OF sp] by simp
qed

lemma csv_text_no_rows: "len df = 0 \<Longrightarrow> csv_text l df = []"
  by (simp add: csv_text_def rows_of_def)

lemma wf_df_clean:
  assumes "wf_df df" and "clean df = Inr c"
  shows "wf_df c" and "len c = len df"
proof -
  note cc = clean_columns[OF assms(2)]
  show "len c = len df" by (simp add: len_def cc(2))
  have "length (col_vals x) = length (df_index df)" if "x \<in> set (df_columns c)" for x
    using that assms(1) unfolding cc(1) by (auto simp: wf_df_def list_all_iff)
  then show "wf_df c" using assms(1) by (simp add: wf_df_def list_all_iff cc(2))
qed

lemma len_encode: "encode l c = Inr e \<Longrightarrow> len e = len c"
  by (simp add: len_def encode_columns(3))

lemma clean_small:
  "clean small_frame =
     Inr \<lparr>df_index = [0, 1],
          df_columns =
            [\<lparr>col_name = ''Account Length'', col_dtype = Int64, col_vals = [I 128, I 107]\<rparr>,
             \<lparr>col_name = ''Area Code'', col_dtype = Object, col_vals = [I 415, I 408]\<rparr>,
             \<lparr>col_name = ''VMail Plan'', col_dtype = Object, col_vals = [S ''yes'', S ''no'']\<rparr>,
             \<lparr>col_name = ''Churn?'', col_dtype = Object, col_vals = [S ''False.'', S ''True.'']\<rparr>]\<rparr>"
  by (simp add: clean_def drop_columns_def astype_object_def getitem_def names_def small_frame_def)

lemma encode_small:
  "encode l \<lparr>df_index = [0, 1],
          df_columns =
            [\<lparr>col_name = ''Account Length'', col_dtype = Int64, col_vals = [I 128, I 107]\<rparr>,
             \<lparr>col_name = ''Area Code'', col_dtype = Object, col_vals = [I 415, I 408]\<rparr>,
             \<lparr>col_name = ''VMail Plan'', col_dtype = Object, col_vals = [S ''yes'', S ''no'']\<rparr>,
             \<lparr>col_name = ''Churn?'', col_dtype = Object, col_vals = [S ''False.'', S ''True.'']\<rparr>]\<rparr>
     = Inr small_encoded"
  by (simp add: encode_def Let_def getitem_def drop_columns_def names_def concat_axis1_def
      get_dummies_def get_dummies_1d_def levels_def py_eq_def level_le_def level_str_def
      str_int_def str_nat_408 small_encoded_def)

lemma small_frame_facts: "wf_df small_frame" "len small_frame = 2"
  by (simp_all add: wf_df_def len_def small_frame_def)

lemma main_small:
  assumes "is_permutation p 2"
  shows "snd (main (sample_lib small_csv small_frame p) sample_url (sample_world small_csv)) = None"
    and "files (fst (main (sample_lib small_csv small_frame p) sample_url (sample_world small_csv)))
      validation_path = Some []"
proof -
  let ?l = "sample_lib small_csv small_frame p"
  let ?w = "sample_world small_csv"
  have n: "len small_encoded = 2" by (simp add: len_def small_encoded_def)
  have wf: "wf_df small_encoded" by (simp add: wf_df_def small_encoded_def)
  have pm: "is_permutation (permutation ?l (RandomState seed) (len small_encoded)) (len small_encoded)"
    using assms by (simp add: n sample_lib_def seed_def)
  obtain tr va te where sp: "split ?l (Some seed) (entropy ?w) small_encoded = Inr (tr, va, te)"
    and va: "len va = int_float_mul float_0_9 (len small_encoded) -
      int_float_mul float_0_7 (len small_encoded)"
    using wf generator_of_Some pm by (rule split_sizes)
  have "len va = 0" using va by (simp add: n int_float_mul_2)
  then have csv: "csv_text ?l va = []" by (rule csv_text_no_rows)
  have t: "transform ?l (Some seed) (entropy ?w) small_frame = Inr (tr, va, te)"
    by (simp only: transform_def clean_small encode_small sum.case sp)
  note m = script_sample_world[OF disjI1[OF refl] sample_csv_not_empty(2) t]
  show "snd (main ?l sample_url ?w) = None" by (simp only: main_def m snd_conv)
  show "files (fst (main ?l sample_url ?w)) validation_path = Some []"
    unfolding main_def m fst_conv csv by (simp add: paths_distinct paths_distinct[symmetric])
qed

text \<open>
  C8 as it is stated fails: nothing in the script looks at the row count. A file of two
  customers is processed without error, whichever way the two rows are shuffled, and
  \<^verbatim>\<open>validation.csv\<close> is written with nothing in it (\<^verbatim>\<open>int(0.7 * 2) = int(0.9 * 2) = 1\<close>).
\<close>

theorem empty_split_counterexample:
  "snd (main (sample_lib small_csv small_frame [0, 1]) sample_url (sample_world small_csv)) = None \<and>
   files (fst (main (sample_lib small_csv small_frame [0, 1]) sample_url (sample_world small_csv)))
     validation_path = Some [] \<and>
   snd (main (sample_lib small_csv small_frame [1, 0]) sample_url (sample_world small_csv)) = None \<and>
   files (fst (main (sample_lib small_csv small_frame [1, 0]) sample_url (sample_world small_csv)))
     validation_path = Some []"
proof -
  have p: "is_permutation [0, 1] 2" "is_permutation [1, 0] 2"
    by (simp_all add: is_permutation_def upt_rec eval_nat_numeral del: mset_upt)
  show ?thesis
    using main_small[OF p(1)] main_small[OF p(2)] by (intro conjI)
qed

lemma main_empty_input:
  assumes "fetch url w = (v, None)" and "files v raw_path = Some []"
  shows "main l url w = (v, Some EmptyDataError)"
    and "files v train_path = files w train_path"
    and "files v validation_path = files w validation_path"
    and "files v test_path = files w test_path"
proof -
  have "load l url w = (Inl EmptyDataError, v)"
    using load_of_fetch[OF assms] by simp
  then show "main l url w = (v, Some EmptyDataError)"
    unfolding main_def by (rule script_load_error)
  show "files v train_path = files w train_path"
    "files v validation_path = files w validation_path"
    "files v test_path = files w test_path"
    using fetch_frame(2)[OF assms(1)] paths_distinct by simp_all
qed

lemma upstream_sizes:
  assumes "load l url w = (Inr df, v)" and "wf_df df"
    and "is_permutation (permutation l (RandomState seed) (len df)) (len df)"
    and "clean df = Inr c" and "encode l c = Inr e"
  obtains tr va te where "upstream l (Some seed) url w = Inr (tr, va, te)"
    and "len tr = int_float_mul float_0_7 (len df)"
    and "len va = int_float_mul float_0_9 (len df) - int_float_mul float_0_7 (len df)"
    and "len te = len df - int_float_mul float_0_9 (len df)"
proof -
  have n: "len e = len df" using len_encode[OF assms(5)] wf_df_clean(2)[OF assms(2,4)] by simp
  have wf: "wf_df e" using wf_df_encode[OF wf_df_clean(1)[OF assms(2,4)] assms(5)] .
  have pm: "is_permutation (permutation l (RandomState seed) (len e)) (len e)"
    using assms(3) by (simp add: n)
  obtain tr va te where sp: "split l (Some seed) (entropy v) e = Inr (tr, va, te)"
    and s: "len tr = int_float_mul float_0_7 (len e)"
      "len va = int_float_mul float_0_9 (len e) - int_float_mul float_0_7 (len e)"
      "len te = len e - int_float_mul float_0_9 (len e)"
    using wf generator_of_Some pm by (rule split_sizes)
  have "upstream l (Some seed) url w = Inr (tr, va, te)"
    by (simp add: upstream_def assms(1,4,5) transform_def sp)
  then show thesis using that s n by simp
qed

text \<open>
  C8, amended. An input with nothing in it ends the run with pandas' EmptyDataError, raised
  by \<^verbatim>\<open>read_csv\<close>: the empty copy \<^verbatim>\<open>raw-data.csv\<close> has been downloaded by then, and none of
  the three split files is written. The number of rows is not looked at: an input of any
  number \<open>n\<close> of rows that loads, cleans and encodes reaches the first \<^verbatim>\<open>to_csv\<close> with
  \<^verbatim>\<open>int(0.7 * n)\<close>, \<^verbatim>\<open>int(0.9 * n) - int(0.7 * n)\<close> and \<^verbatim>\<open>n - int(0.9 * n)\<close> rows for train,
  validation and test, whether or not one of these is 0, and a frame without rows is
  written as a file without bytes.
\<close>

theorem empty_input_fails_row_count_unchecked:
  "(fetch url0 w0 = (v0, None) \<and> files v0 raw_path = Some [] \<longrightarrow>
      main l url0 w0 = (v0, Some EmptyDataError) \<and>
      files v0 raw_path = Some [] \<and>
      files v0 train_path = files w0 train_path \<and>
      files v0 validation_path = files w0 validation_path \<and>
      files v0 test_path = files w0 test_path) \<and>
   (load l url w = (Inr df, v) \<and> wf_df df \<and>
    is_permutation (permutation l (RandomState seed) (len df)) (len df) \<and>
    clean df = Inr c \<and> encode l c = Inr e \<longrightarrow>
      (\<exists>tr va te. upstream l (Some seed) url w = Inr (tr, va, te) \<and>
         len tr = int_float_mul float_0_7 (len df) \<and>
         len va = int_float_mul float_0_9 (len df) - int_float_mul float_0_7 (len df) \<and>
         len te = len df - int_float_mul float_0_9 (len df) \<and>
         (len tr = 0 \<longrightarrow> csv_text l tr = []) \<and>
         (len va = 0 \<longrightarrow> csv_text l va = []) \<and>
         (len te = 0 \<longrightarrow> csv_text l te = [])))"
proof (intro conjI impI)
  assume a: "fetch url0 w0 = (v0, None) \<and> files v0 raw_path = Some []"
  then have f: "fetch url0 w0 = (v0, None)" and b: "files v0 raw_path = Some []" by simp_all
  show "main l url0 w0 = (v0, Some EmptyDataError)" "files v0 raw_path = Some []"
    "files v0 train_path = files w0 train_path"
    "files v0 validation_path = files w0 validation_path"
    "files v0 test_path = files w0 test_path"
    using main_empty_input[OF f b] b by simp_all
next
  assume a: "load l url w = (Inr df, v) \<and> wf_df df \<and>
    is_permutation (permutation l (RandomState seed) (len df)) (len df) \<and>
    clean df = Inr c \<and> encode l c = Inr e"
  then obtain tr va te where "upstream l (Some seed) url w = Inr (tr, va, te)"
    "len tr = int_float_mul float_0_7 (len df)"
    "len va = int_float_mul float_0_9 (len df) - int_float_mul float_0_7 (len df)"
    "len te = len df - int_float_mul float_0_9 (len df)"
    using upstream_sizes[of l url w df v c e] by auto
  then show "\<exists>tr va te. upstream l (Some seed) url w = Inr (tr, va, te) \<and>
         len tr = int_float_mul float_0_7 (len df) \<and>
         len va = int_float_mul float_0_9 (len df) - int_float_mul float_0_7 (len df) \<and>
         len te = len df - int_float_mul float_0_9 (len df) \<and>
         (len tr = 0 \<longrightarrow> csv_text l tr = []) \<and>
         (len va = 0 \<longrightarrow> csv_text l va = []) \<and>
         (len te = 0 \<longrightarrow> csv_text l te = [])"
    using csv_text_no_rows by (intro exI[of _ tr] exI[of _ va] exI[of _ te]) simp
qed

theorem empty_input_fails_row_count_unchecked_witness:
  "snd (main (sample_lib small_csv small_frame [1, 0]) sample_url (sample_world [])) =
     Some EmptyDataError \<and>
   files (fst (main (sample_lib small_csv small_frame [1, 0]) sample_url (sample_world []))) raw_path =
     Some [] \<and>
   files (fst (main (sample_lib small_csv small_frame [1, 0]) sample_url (sample_world []))) train_path =
     None \<and>
   (\<exists>tr va te. upstream (sample_lib small_csv small_frame [1, 0]) (Some seed) sample_url
        (sample_world small_csv) = Inr (tr, va, te) \<and>
      len tr = 1 \<and> len va = 0 \<and> len te = 1 \<and>
      csv_text (sample_lib small_csv small_frame [1, 0]) va = [])"
proof -
  let ?l = "sample_lib small_csv small_frame [1, 0]"
  let ?wa = "sample_world []"
  let ?va = "?wa\<lparr>dirs := insert ''/opt/ml/processing/data'' (dirs ?wa),
       files := (files ?wa)(raw_path \<mapsto> [])\<rparr>"
  let ?w = "sample_world small_csv"
  let ?v = "?w\<lparr>dirs := insert ''/opt/ml/processing/data'' (dirs ?w),
       files := (files ?w)(raw_path \<mapsto> small_csv)\<rparr>"
  let ?c = "\<lparr>df_index = [0, 1],
          df_columns =
            [\<lparr>col_name = ''Account Length'', col_dtype = Int64, col_vals = [I 128, I 107]\<rparr>,
             \<lparr>col_name = ''Area Code'', col_dtype = Object, col_vals = [I 415, I 408]\<rparr>,
             \<lparr>col_name = ''VMail Plan'', col_dtype = Object, col_vals = [S ''yes'', S ''no'']\<rparr>,
             \<lparr>col_name = ''Churn?'', col_dtype = Object, col_vals = [S ''False.'', S ''True.'']\<rparr>]\<rparr>"
  note t = empty_input_fails_row_count_unchecked[where l = ?l and ?url0.0 = sample_url
      and ?w0.0 = ?wa and ?v0.0 = ?va and url = sample_url and w = ?w and v = ?v
      and df = small_frame and c = ?c and e = small_encoded]
  have h1: "fetch sample_url ?wa = (?va, None) \<and> files ?va raw_path = Some []"
    by (simp add: sample_world_fetch)
  have ld: "load ?l sample_url ?w = (Inr small_frame, ?v)"
    using sample_csv_not_empty(2) sample_world_fetch by (rule load_sample) simp
  have pm: "is_permutation (permutation ?l (RandomState seed) (len small_frame)) (len small_frame)"
    by (simp add: small_frame_facts(2) sample_lib_def seed_def is_permutation_def upt_rec
        eval_nat_numeral del: mset_upt)
  have h2: "load ?l sample_url ?w = (Inr small_frame, ?v) \<and> wf_df small_frame \<and>
    is_permutation (permutation ?l (RandomState seed) (len small_frame)) (len small_frame) \<and>
    clean small_frame = Inr ?c \<and> encode ?l ?c = Inr small_encoded"
    using ld small_frame_facts(1) pm clean_small encode_small by (intro conjI)
  from t[THEN conjunct1] h1
  have a: "main ?l sample_url ?wa = (?va, Some EmptyDataError) \<and>
      files ?va raw_path = Some [] \<and>
      files ?va train_path = files ?wa train_path \<and>
      files ?va validation_path = files ?wa validation_path \<and>
      files ?va test_path = files ?wa test_path"
    by (rule mp)
  from t[THEN conjunct2] h2
  have "\<exists>tr va te. upstream ?l (Some seed) sample_url ?w = Inr (tr, va, te) \<and>
         len tr = int_float_mul float_0_7 (len small_frame) \<and>
         len va = int_float_mul float_0_9 (len small_frame) - int_float_mul float_0_7 (len small_frame) \<and>
         len te = len small_frame - int_float_mul float_0_9 (len small_frame) \<and>
         (len tr = 0 \<longrightarrow> csv_text ?l tr = []) \<and>
         (len va = 0 \<longrightarrow> csv_text ?l va = []) \<and>
         (len te = 0 \<longrightarrow> csv_text ?l te = [])"
    by (rule mp)
  then obtain tr va te where b: "upstream ?l (Some seed) sample_url ?w = Inr (tr, va, te)"
    "len tr = int_float_mul float_0_7 (len small_frame)"
    "len va = int_float_mul float_0_9 (len small_frame) - int_float_mul float_0_7 (len small_frame)"
    "len te = len small_frame - int_float_mul float_0_9 (len small_frame)"
    "len va = 0 \<longrightarrow> csv_text ?l va = []"
    and "len tr = 0 \<longrightarrow> csv_text ?l tr = []" and "len te = 0 \<longrightarrow> csv_text ?l te = []"
    by (elim exE conjE)
  have sz: "len tr = 1" "len va = 0" "len te = 1"
    using b(2,3,4) by (simp_all add: small_frame_facts(2) int_float_mul_2)
  have e: "csv_text ?l va = []" using b(5) sz(2) by (rule mp)
  have "\<exists>tr va te. upstream ?l (Some seed) sample_url ?w = Inr (tr, va, te) \<and>
      len tr = 1 \<and> len va = 0 \<and> len te = 1 \<and> csv_text ?l va = []"
    using b(1) sz e by (intro exI[of _ tr] exI[of _ va] exI[of _ te] conjI)
  moreover have "snd (main ?l sample_url ?wa) = Some EmptyDataError"
    by (simp only: a[THEN conjunct1] snd_conv)
  moreover have "files (fst (main ?l sample_url ?wa)) raw_path = Some []"
    by (simp only: a[THEN conjunct1] fst_conv a[THEN conjunct2, THEN conjunct1])
  moreover have "files (fst (main ?l sample_url ?wa)) train_path = None"
    by (simp only: a[THEN conjunct1] fst_conv a[THEN conjunct2, THEN conjunct2, THEN conjunct1])
      (simp add: sample_world_def)
  ultimately show ?thesis by (intro conjI)
qed

subsection \<open>The bytes of the output files\<close>

lemma py_split_not_Nil: "py_split sep xs \<noteq> []"
  by (induction xs) (auto split: list.splits)

lemma py_split_no_sep: "sep \<notin> set f \<Longrightarrow> py_split sep f = [f]"
  by (induction f) auto

lemma py_split_append: "sep \<notin> set f \<Longrightarrow> py_split sep (f @ sep # rest) = f # py_split sep rest"
  by (induction f) auto

lemma py_split_join:
  "fs \<noteq> [] \<Longrightarrow> \<forall>f\<in>set fs. sep \<notin> set f \<Longrightarrow> py_split sep (py_join [sep] fs) = fs"
proof (induction "[sep]" fs rule: py_join.induct)
  case 1
  then show ?case by simp
next
  case (2 p)
  then show ?case by (simp add: py_split_no_sep)
next
  case (3 p q ps)
  then show ?case by (simp add: py_split_append)
qed

lemma py_split_lines:
  "\<forall>ln\<in>set lines. sep \<notin> set ln \<Longrightarrow>
     py_split sep (concat (map (\<lambda>ln. ln @ [sep]) lines)) = lines @ [[]]"
  by (induction lines) (simp_all add: py_split_append)

lemma set_py_join: "set (py_join sep fs) \<subseteq> set sep \<union> \<Union> (set ` set fs)"
  by (induction sep fs rule: py_join.induct) auto

lemma read_back_csv_text:
  assumes "\<forall>row\<in>set (rows_of x). row \<noteq> [] \<and>
     (\<forall>v\<in>set row. CHR '','' \<notin> set (csv_cell l v) \<and> CHR 0x0A \<notin> set (csv_cell l v))"
  shows "read_back (csv_text l x) = map (map (csv_cell l)) (rows_of x)"
proof -
  let ?lines = "map (\<lambda>row. py_join '','' (map (csv_cell l) row)) (rows_of x)"
  have t: "csv_text l x = concat (map (\<lambda>ln. ln @ [CHR 0x0A]) ?lines)"
    by (simp add: csv_text_def csv_line_def[abs_def] comp_def)
  have "CHR 0x0A \<notin> set ln" if "ln \<in> set ?lines" for ln
  proof -
    from that obtain row where row: "row \<in> set (rows_of x)"
      and ln: "ln = py_join '','' (map (csv_cell l) row)" by auto
    have "set ln \<subseteq> set '','' \<union> \<Union> (set ` set (map (csv_cell l) row))"
      unfolding ln by (rule set_py_join)
    then show ?thesis using assms row by auto
  qed
  then have "py_split (CHR 0x0A) (csv_text l x) = ?lines @ [[]]"
    unfolding t by (intro py_split_lines) simp
  then have "read_back (csv_text l x) = map (py_split CHR '','') ?lines"
    by (simp add: read_back_def)
  also have "\<dots> = map (map (csv_cell l)) (rows_of x)"
  proof -
    have "py_split CHR '','' (py_join '','' (map (csv_cell l) row)) = map (csv_cell l) row"
      if "row \<in> set (rows_of x)" for row
      using assms that by (intro py_split_join) auto
    then show ?thesis by (simp add: comp_def)
  qed
  finally show ?thesis .
qed

lemma digit_chars: "k < 10 \<Longrightarrow> ''0123456789'' ! k \<in> set ''0123456789''"
  by (rule nth_mem) simp

lemma str_nat_digits: "set (str_nat n) \<subseteq> set ''0123456789''"
proof (induction n rule: str_nat.induct)
  case (1 n)
  show ?case
  proof (cases "n < 10")
    case True
    then show ?thesis using digit_chars[of n] by (subst str_nat.simps) (simp del: str_nat.simps)
  next
    case False
    have "n mod 10 < 10" by simp
    then have "''0123456789'' ! (n mod 10) \<in> set ''0123456789''" by (rule digit_chars)
    then show ?thesis using False 1 by (subst str_nat.simps) (simp del: str_nat.simps)
  qed
qed

lemma csv_cell_plain:
  assumes "\<not> is_str v" and "plain_repr l"
  shows "CHR '','' \<notin> set (csv_cell l v) \<and> CHR 0x0A \<notin> set (csv_cell l v)"
proof (cases v)
  case (I i)
  have "CHR '','' \<notin> set (str_nat n) \<and> CHR 0x0A \<notin> set (str_nat n)" for n
    using str_nat_digits[of n] by (auto simp del: str_nat.simps)
  then show ?thesis by (simp add: I csv_cell_def level_str_def str_int_def del: str_nat.simps)
next
  case (F r)
  then show ?thesis using assms(2) by (simp add: csv_cell_def level_str_def plain_repr_def)
next
  case (B b)
  then show ?thesis by (simp add: csv_cell_def level_str_def)
next
  case (S s)
  then show ?thesis using assms(1) by simp
next
  case NaN
  then show ?thesis by (simp add: csv_cell_def)
qed

lemma typed_df_clean:
  assumes "typed_df df" and "clean df = Inr c"
  shows "typed_df c"
  using assms(1) unfolding typed_df_def clean_columns(1)[OF assms(2)]
  by (auto simp: list_all_iff)

lemma encode_no_strings:
  assumes "typed_df c" and "encode l c = Inr e"
    and "x \<in> set (df_columns e)" and "v \<in> set (col_vals x)"
  shows "\<not> is_str v"
proof -
  have "x \<in> set (df_columns (get_dummies l c))"
    using assms(3) unfolding encode_columns(1)[OF assms(2)] by auto
  then consider "x \<in> set (df_columns c)" "col_dtype x \<noteq> Object"
    | src where "x \<in> set (get_dummies_1d l src)"
    by (auto simp: get_dummies_columns)
  then show ?thesis
  proof cases
    case 1
    then show ?thesis using assms(1,4) by (auto simp: typed_df_def list_all_iff)
  next
    case 2
    then show ?thesis using get_dummies_1d_props(3)[OF 2] assms(4) by auto
  qed
qed

lemma encoded_rows_plain:
  assumes "wf_df e" and "typed_df c" and "encode l c = Inr e" and "plain_repr l"
    and "i < len e"
  shows "map (\<lambda>x. col_vals x ! i) (df_columns e) \<noteq> []"
    and "\<forall>v\<in>set (map (\<lambda>x. col_vals x ! i) (df_columns e)).
       CHR '','' \<notin> set (csv_cell l v) \<and> CHR 0x0A \<notin> set (csv_cell l v)"
proof -
  show "map (\<lambda>x. col_vals x ! i) (df_columns e) \<noteq> []"
    using encode_columns(1,2)[OF assms(3)] by simp
  have "col_vals x ! i \<in> set (col_vals x)" if "x \<in> set (df_columns e)" for x
    using wf_df_cols[OF assms(1) that] assms(5) by simp
  then have "\<not> is_str (col_vals x ! i)" if "x \<in> set (df_columns e)" for x
    using encode_no_strings[OF assms(2,3) that] that by blast
  then show "\<forall>v\<in>set (map (\<lambda>x. col_vals x ! i) (df_columns e)).
       CHR '','' \<notin> set (csv_cell l v) \<and> CHR 0x0A \<notin> set (csv_cell l v)"
    using csv_cell_plain[OF _ assms(4)] by auto
qed

lemma set_slice_subset: "set (slice a b xs) \<subseteq> set xs"
  unfolding slice_def using set_take_subset set_drop_subset by fast

lemma read_back_piece:
  assumes "wf_df e" and "typed_df c" and "encode l c = Inr e" and "plain_repr l"
    and "set q \<subseteq> {0..<len e}" and "rows_of x = map (\<lambda>i. rows_of e ! i) q"
  shows "read_back (csv_text l x) = map (csv_record l e) q"
proof -
  have r: "rows_of x = map (\<lambda>i. map (\<lambda>x. col_vals x ! i) (df_columns e)) q"
    unfolding assms(6) using assms(5) by (intro map_cong refl nth_rows_of) auto
  have "\<forall>row\<in>set (rows_of x). row \<noteq> [] \<and>
     (\<forall>v\<in>set row. CHR '','' \<notin> set (csv_cell l v) \<and> CHR 0x0A \<notin> set (csv_cell l v))"
  proof
    fix row assume "row \<in> set (rows_of x)"
    then obtain i where i: "i \<in> set q" and row: "row = map (\<lambda>x. col_vals x ! i) (df_columns e)"
      unfolding r by auto
    have "i < len e" using i assms(5) by auto
    then show "row \<noteq> [] \<and>
     (\<forall>v\<in>set row. CHR '','' \<notin> set (csv_cell l v) \<and> CHR 0x0A \<notin> set (csv_cell l v))"
      unfolding row using encoded_rows_plain[OF assms(1,2,3,4)] by blast
  qed
  then have "read_back (csv_text l x) = map (map (csv_cell l)) (rows_of x)"
    by (rule read_back_csv_text)
  then show ?thesis by (simp add: r csv_record_def comp_def)
qed

lemma finished_run:
  assumes "load l url w = (Inr df, v)" and "wf_df df" and "typed_df df" and "plain_repr l"
    and "is_permutation (permutation l (RandomState seed) (len df)) (len df)"
    and "clean df = Inr c" and "encode l c = Inr e"
    and "main l url w = (w', None)"
  obtains tr va te where "upstream l (Some seed) url w = Inr (tr, va, te)"
    and "files w' train_path = Some (csv_text l tr)"
    and "files w' validation_path = Some (csv_text l va)"
    and "files w' test_path = Some (csv_text l te)"
    and "schema tr = schema e" and "schema va = schema e" and "schema te = schema e"
    and "read_back (csv_text l tr) = map (csv_record l e)
          (take (int_float_mul float_0_7 (len df)) (permutation l (RandomState seed) (len df)))"
    and "read_back (csv_text l va) = map (csv_record l e)
          (slice (int_float_mul float_0_7 (len df)) (int_float_mul float_0_9 (len df))
             (permutation l (RandomState seed) (len df)))"
    and "read_back (csv_text l te) = map (csv_record l e)
          (drop (int_float_mul float_0_9 (len df)) (permutation l (RandomState seed) (len df)))"
proof -
  let ?p = "permutation l (RandomState seed) (len df)"
  have n: "len e = len df" using len_encode[OF assms(7)] wf_df_clean(2)[OF assms(2,6)] by simp
  have wf: "wf_df e" using wf_df_encode[OF wf_df_clean(1)[OF assms(2,6)] assms(7)] .
  have ty: "typed_df c" using assms(3,6) by (rule typed_df_clean)
  have pm: "is_permutation (permutation l (RandomState seed) (len e)) (len e)"
    using assms(5) by (simp add: n)
  have sp: "set ?p = {0..<len e}" using is_permutation_facts(2)[OF assms(5)] by (simp add: n)
  obtain tr va te where s: "split l (Some seed) (entropy v) e = Inr (tr, va, te)"
    and r: "rows_of tr = take (int_float_mul float_0_7 (len e))
           (map (\<lambda>i. rows_of e ! i) (permutation l (RandomState seed) (len e)))"
      "rows_of va = slice (int_float_mul float_0_7 (len e)) (int_float_mul float_0_9 (len e))
           (map (\<lambda>i. rows_of e ! i) (permutation l (RandomState seed) (len e)))"
      "rows_of te = drop (int_float_mul float_0_9 (len e))
           (map (\<lambda>i. rows_of e ! i) (permutation l (RandomState seed) (len e)))"
    using split_rows_of[OF wf generator_of_Some pm] by blast
  have u: "upstream l (Some seed) url w = Inr (tr, va, te)"
    by (simp add: upstream_def assms(1,6,7) transform_def s)
  have "script l (Some seed) url w = (w', None)" using assms(8) by (simp add: main_def)
  then obtain tr' va' te' where "upstream l (Some seed) url w = Inr (tr', va', te')"
    and f: "files w' train_path = Some (csv_text l tr')"
      "files w' validation_path = Some (csv_text l va')"
      "files w' test_path = Some (csv_text l te')"
    by (rule script_finished)
  then have "tr' = tr" "va' = va" "te' = te" using u by simp_all
  note f = f[unfolded this]
  note sc = split_schema[OF s]
  have q1: "set (take (int_float_mul float_0_7 (len df)) ?p) \<subseteq> {0..<len e}"
    using set_take_subset[of _ ?p] sp by fast
  have q2: "set (slice (int_float_mul float_0_7 (len df)) (int_float_mul float_0_9 (len df)) ?p)
      \<subseteq> {0..<len e}"
    using set_slice_subset[of _ _ ?p] sp by fast
  have q3: "set (drop (int_float_mul float_0_9 (len df)) ?p) \<subseteq> {0..<len e}"
    using set_drop_subset[of _ ?p] sp by fast
  have b1: "read_back (csv_text l tr) = map (csv_record l e) (take (int_float_mul float_0_7 (len df)) ?p)"
    using wf ty assms(7,4) q1 by (rule read_back_piece) (simp add: r(1) n take_map)
  have b2: "read_back (csv_text l va) = map (csv_record l e)
      (slice (int_float_mul float_0_7 (len df)) (int_float_mul float_0_9 (len df)) ?p)"
    using wf ty assms(7,4) q2 by (rule read_back_piece) (simp add: r(2) n map_slice)
  have b3: "read_back (csv_text l te) = map (csv_record l e) (drop (int_float_mul float_0_9 (len df)) ?p)"
    using wf ty assms(7,4) q3 by (rule read_back_piece) (simp add: r(3) n drop_map)
  show thesis using that[OF u f sc b1 b2 b3] .
qed

lemma main_finished_stages:
  assumes "load l url w = (Inr df, v)" and "main l url w = (w', None)"
  obtains c e where "clean df = Inr c" and "encode l c = Inr e"
proof -
  have "script l (Some seed) url w = (w', None)" using assms(2) by (simp add: main_def)
  then obtain tr va te where "upstream l (Some seed) url w = Inr (tr, va, te)"
    by (rule script_finished)
  then have "transform l (Some seed) (entropy v) df = Inr (tr, va, te)"
    using assms(1) by (simp add: upstream_def)
  then show thesis using that by (auto simp: transform_def split: sum.splits)
qed

lemma length_csv_record: "length (csv_record l e i) = length (schema e)"
  by (simp add: csv_record_def schema_def)

text \<open>
  C9: the three files of a finished run have the same number of fields in every line, and
  the same column in the same field. The three frames have the columns of the encoded
  frame, names and types, in its order. Neither the split nor \<^verbatim>\<open>to_csv\<close> touches the
  columns: read back, every line of \<^verbatim>\<open>train.csv\<close>, \<^verbatim>\<open>validation.csv\<close> and \<^verbatim>\<open>test.csv\<close> is the
  record of one row of the encoded frame, one field per column in the order of the
  columns. There is no header line and no index field: the lines are those of the rows
  at the first \<^verbatim>\<open>int(0.7 * n)\<close> positions of the permutation, the next ones up to
  \<^verbatim>\<open>int(0.9 * n)\<close>, and the rest. An input is valid when the parser has made a well-formed
  frame of it with strings in object columns only.
\<close>

theorem same_columns_in_all_splits:
  assumes "load l url w = (Inr df, v)" and "wf_df df" and "typed_df df" and "plain_repr l"
    and "is_permutation (permutation l (RandomState seed) (len df)) (len df)"
    and "main l url w = (w', None)"
  shows "\<exists>c e tr va te. clean df = Inr c \<and> encode l c = Inr e \<and>
    upstream l (Some seed) url w = Inr (tr, va, te) \<and>
    schema tr = schema e \<and> schema va = schema e \<and> schema te = schema e \<and>
    files w' train_path = Some (csv_text l tr) \<and>
    files w' validation_path = Some (csv_text l va) \<and>
    files w' test_path = Some (csv_text l te) \<and>
    read_back (csv_text l tr) = map (csv_record l e)
      (take (int_float_mul float_0_7 (len df)) (permutation l (RandomState seed) (len df))) \<and>
    read_back (csv_text l va) = map (csv_record l e)
      (slice (int_float_mul float_0_7 (len df)) (int_float_mul float_0_9 (len df))
         (permutation l (RandomState seed) (len df))) \<and>
    read_back (csv_text l te) = map (csv_record l e)
      (drop (int_float_mul float_0_9 (len df)) (permutation l (RandomState seed) (len df))) \<and>
    (\<forall>fs\<in>set (read_back (csv_text l tr)) \<union> set (read_back (csv_text l va)) \<union>
        set (read_back (csv_text l te)). length fs = length (schema e))"
proof -
  obtain c e where c: "clean df = Inr c" and e: "encode l c = Inr e"
    using assms(1,6) by (rule main_finished_stages)
  obtain tr va te where u: "upstream l (Some seed) url w = Inr (tr, va, te)"
    and f: "files w' train_path = Some (csv_text l tr)"
      "files w' validation_path = Some (csv_text l va)"
      "files w' test_path = Some (csv_text l te)"
    and sc: "schema tr = schema e" "schema va = schema e" "schema te = schema e"
    and b: "read_back (csv_text l tr) = map (csv_record l e)
          (take (int_float_mul float_0_7 (len df)) (permutation l (RandomState seed) (len df)))"
      "read_back (csv_text l va) = map (csv_record l e)
          (slice (int_float_mul float_0_7 (len df)) (int_float_mul float_0_9 (len df))
             (permutation l (RandomState seed) (len df)))"
      "read_back (csv_text l te) = map (csv_record l e)
          (drop (int_float_mul float_0_9 (len df)) (permutation l (RandomState seed) (len df)))"
    using finished_run[OF assms(1,2,3,4,5) c e assms(6)] by blast
  have len: "\<forall>fs\<in>set (read_back (csv_text l tr)) \<union> set (read_back (csv_text l va)) \<union>
        set (read_back (csv_text l te)). length fs = length (schema e)"
    unfolding b by (auto simp: length_csv_record)
  show ?thesis
    apply (rule exI[of _ c], rule exI[of _ e])
    apply (rule exI[of _ tr], rule exI[of _ va], rule exI[of _ te])
    apply (intro conjI)
    by (fact c e u sc f b len)+
qed

lemma sample_frame_facts: "wf_df sample_frame" "typed_df sample_frame" "len sample_frame = 4"
  by (simp_all add: wf_df_def typed_df_def len_def sample_frame_def)

lemma sample_lib_facts:
  "plain_repr (sample_lib bytes df p)"
  "permutation (sample_lib bytes df p) (RandomState seed) n = p"
  by (simp_all add: plain_repr_def sample_lib_def seed_def)

lemma main_sample_world:
  obtains w' where "main (sample_lib sample_csv sample_frame [0, 3, 2, 1]) sample_url
      (sample_world sample_csv) = (w', None)"
proof -
  let ?l = "sample_lib sample_csv sample_frame [0, 3, 2, 1]"
  obtain tr va te where
    t: "transform ?l (Some seed) (entropy (sample_world sample_csv)) sample_frame = Inr (tr, va, te)"
    unfolding transform_sample_frame
    using split_sample_0321[OF sample_lib_permutation(1)] by metis
  show thesis
    by (rule that, unfold main_def,
        rule script_sample_world[OF disjI1[OF refl] sample_csv_not_empty(1) t])
qed

lemma csv_records_sample:
  "map (csv_record l sample_encoded) (take 2 [0, 3, 2, 1]) =
     [[''0'', ''128'', ''0'', ''1'', ''0'', ''1''], [''1'', ''84'', ''1'', ''0'', ''0'', ''1'']]"
  "map (csv_record l sample_encoded) (slice 2 3 [0, 3, 2, 1]) =
     [[''0'', ''137'', ''0'', ''1'', ''1'', ''0'']]"
  "map (csv_record l sample_encoded) (drop 3 [0, 3, 2, 1]) =
     [[''1'', ''107'', ''1'', ''0'', ''1'', ''0'']]"
  by (simp_all add: csv_record_def sample_encoded_def csv_cell_def level_str_def str_int_def
      str_nat_sample slice_def)

theorem same_columns_in_all_splits_witness:
  "map_option read_back (files (fst (main (sample_lib sample_csv sample_frame [0, 3, 2, 1]) sample_url
      (sample_world sample_csv))) train_path) =
     Some [[''0'', ''128'', ''0'', ''1'', ''0'', ''1''], [''1'', ''84'', ''1'', ''0'', ''0'', ''1'']] \<and>
   map_option read_back (files (fst (main (sample_lib sample_csv sample_frame [0, 3, 2, 1]) sample_url
      (sample_world sample_csv))) validation_path) =
     Some [[''0'', ''137'', ''0'', ''1'', ''1'', ''0'']] \<and>
   map_option read_back (files (fst (main (sample_lib sample_csv sample_frame [0, 3, 2, 1]) sample_url
      (sample_world sample_csv))) test_path) =
     Some [[''1'', ''107'', ''1'', ''0'', ''1'', ''0'']]"
proof -
  let ?l = "sample_lib sample_csv sample_frame [0, 3, 2, 1]"
  let ?w = "sample_world sample_csv"
  let ?v = "?w\<lparr>dirs := insert ''/opt/ml/processing/data'' (dirs ?w),
       files := (files ?w)(raw_path \<mapsto> sample_csv)\<rparr>"
  obtain w' where m: "main ?l sample_url ?w = (w', None)" by (rule main_sample_world)
  have ld: "load ?l sample_url ?w = (Inr sample_frame, ?v)"
    using sample_csv_not_empty(1) sample_world_fetch[of sample_csv] by (rule load_sample) simp
  have pm: "is_permutation (permutation ?l (RandomState seed) (len sample_frame)) (len sample_frame)"
    unfolding sample_frame_facts(3) sample_lib_facts(2) by (rule is_permutation_0321(1))
  from same_columns_in_all_splits[OF ld sample_frame_facts(1,2) sample_lib_facts(1) pm m]
  obtain c e tr va te where r: "clean sample_frame = Inr c" "encode ?l c = Inr e"
    "files w' train_path = Some (csv_text ?l tr)"
    "files w' validation_path = Some (csv_text ?l va)"
    "files w' test_path = Some (csv_text ?l te)"
    "read_back (csv_text ?l tr) = map (csv_record ?l e)
      (take (int_float_mul float_0_7 (len sample_frame))
         (permutation ?l (RandomState seed) (len sample_frame)))"
    "read_back (csv_text ?l va) = map (csv_record ?l e)
      (slice (int_float_mul float_0_7 (len sample_frame)) (int_float_mul float_0_9 (len sample_frame))
         (permutation ?l (RandomState seed) (len sample_frame)))"
    "read_back (csv_text ?l te) = map (csv_record ?l e)
      (drop (int_float_mul float_0_9 (len sample_frame))
         (permutation ?l (RandomState seed) (len sample_frame)))"
    by blast
  have "c = sample_cleaned" using r(1) clean_sample by simp
  then have e: "e = sample_encoded" using r(2) encode_sample[of ?l] by simp
  note b = r(6,7,8)[unfolded e sample_frame_facts(3) sample_lib_facts(2) int_float_mul_4
      csv_records_sample]
  show ?thesis
    unfolding m fst_conv r(3,4,5) option.map b by (intro conjI refl)
qed

lemma csv_cell_bit: "csv_cell l (I 0) = ''0''" "csv_cell l (I 1) = ''1''"
  by (simp_all add: csv_cell_def level_str_def str_int_def)

lemma label_fields:
  assumes "wf_df e" and "df_columns e = label # feats" and "set (col_vals label) \<subseteq> {I 0, I 1}"
    and "set q \<subseteq> {0..<len e}"
  shows "map hd (map (csv_record l e) q) = map (\<lambda>i. csv_cell l (col_vals label ! i)) q"
    and "\<forall>fs\<in>set (map (csv_record l e) q).
       fs \<noteq> [] \<and> (hd fs = ''0'' \<or> hd fs = ''1'') \<and> length (tl fs) = length feats"
proof -
  have r: "csv_record l e i = csv_cell l (col_vals label ! i) #
      map (\<lambda>x. csv_cell l (col_vals x ! i)) feats" for i
    by (simp add: csv_record_def assms(2))
  show "map hd (map (csv_record l e) q) = map (\<lambda>i. csv_cell l (col_vals label ! i)) q"
    by (simp add: r comp_def)
  have n: "length (col_vals label) = len e"
    using wf_df_cols[OF assms(1), of label] assms(2) by simp
  have "csv_cell l (col_vals label ! i) = ''0'' \<or> csv_cell l (col_vals label ! i) = ''1''"
    if "i \<in> set q" for i
  proof -
    have "i < length (col_vals label)" using that assms(4) n by auto
    then have "col_vals label ! i \<in> {I 0, I 1}" using assms(3) nth_mem by blast
    then show ?thesis using csv_cell_bit[of l] by auto
  qed
  then show "\<forall>fs\<in>set (map (csv_record l e) q).
       fs \<noteq> [] \<and> (hd fs = ''0'' \<or> hd fs = ''1'') \<and> length (tl fs) = length feats"
    by (auto simp: r)
qed

text \<open>
  C4: an input is valid when the parser has made a well-formed frame of it with strings in
  object columns only, the expanded frame has no column name twice, and no column of the
  input is itself called "Churn?_True.". Then the encoded frame starts with one column,
  the label: it is the indicator column of the category of "Churn?" written "True.", of
  type \<^verbatim>\<open>uint8\<close>, and no column after it is called "Churn?_True." or "Churn?_False.". In
  the three files of a finished run every line, read back, starts with the field of the
  label of its row, which is \<^verbatim>\<open>0\<close> or \<^verbatim>\<open>1\<close>, and goes on with one field per feature.
\<close>

theorem label_first_and_binary:
  assumes "load l url w = (Inr df, v)" and "wf_df df" and "typed_df df" and "plain_repr l"
    and "is_permutation (permutation l (RandomState seed) (len df)) (len df)"
    and "clean df = Inr c"
    and "distinct (names (get_dummies l c))" and "''Churn?_True.'' \<notin> set (names c)"
    and "main l url w = (w', None)"
  shows "\<exists>e label feats src lv tr va te.
    encode l c = Inr e \<and>
    df_columns e = label # feats \<and> col_name label = ''Churn?_True.'' \<and> col_dtype label = UInt8 \<and>
    src \<in> set (df_columns c) \<and> col_name src = ''Churn?'' \<and> level_str l lv = ''True.'' \<and>
    col_vals label = map (indicator lv) (col_vals src) \<and>
    (\<forall>f\<in>set feats. col_name f \<noteq> ''Churn?_True.'' \<and> col_name f \<noteq> ''Churn?_False.'') \<and>
    upstream l (Some seed) url w = Inr (tr, va, te) \<and>
    files w' train_path = Some (csv_text l tr) \<and>
    files w' validation_path = Some (csv_text l va) \<and>
    files w' test_path = Some (csv_text l te) \<and>
    map hd (read_back (csv_text l tr)) = map (\<lambda>i. csv_cell l (col_vals label ! i))
      (take (int_float_mul float_0_7 (len df)) (permutation l (RandomState seed) (len df))) \<and>
    map hd (read_back (csv_text l va)) = map (\<lambda>i. csv_cell l (col_vals label ! i))
      (slice (int_float_mul float_0_7 (len df)) (int_float_mul float_0_9 (len df))
         (permutation l (RandomState seed) (len df))) \<and>
    map hd (read_back (csv_text l te)) = map (\<lambda>i. csv_cell l (col_vals label ! i))
      (drop (int_float_mul float_0_9 (len df)) (permutation l (RandomState seed) (len df))) \<and>
    (\<forall>fs\<in>set (read_back (csv_text l tr)) \<union> set (read_back (csv_text l va)) \<union>
        set (read_back (csv_text l te)).
       fs \<noteq> [] \<and> (hd fs = ''0'' \<or> hd fs = ''1'') \<and> length (tl fs) = length feats)"
proof -
  let ?p = "permutation l (RandomState seed) (len df)"
  obtain c' e where "clean df = Inr c'" and "encode l c' = Inr e"
    using assms(1,9) by (rule main_finished_stages)
  then have e: "encode l c = Inr e" using assms(6) by simp
  obtain label src lv where cols: "df_columns e = label #
      filter (\<lambda>x. col_name x \<noteq> ''Churn?_False.'' \<and> col_name x \<noteq> ''Churn?_True.'')
        (df_columns (get_dummies l c))"
    and lab: "col_name label = ''Churn?_True.''" "col_dtype label = UInt8"
    and src: "src \<in> set (df_columns c)" "col_name src = ''Churn?''" "level_str l lv = ''True.''"
    and vals: "col_vals label = map (indicator lv) (col_vals src)"
    using encode_label[OF e assms(7,8)] by blast
  define feats where "feats = filter (\<lambda>x. col_name x \<noteq> ''Churn?_False.'' \<and> col_name x \<noteq> ''Churn?_True.'')
        (df_columns (get_dummies l c))"
  have feats: "\<forall>f\<in>set feats. col_name f \<noteq> ''Churn?_True.'' \<and> col_name f \<noteq> ''Churn?_False.''"
    by (simp add: feats_def)
  have cols': "df_columns e = label # feats" using cols by (simp only: feats_def)
  have bin: "set (col_vals label) \<subseteq> {I 0, I 1}" by (auto simp: vals indicator_def)
  have n: "len e = len df" using len_encode[OF e] wf_df_clean(2)[OF assms(2,6)] by simp
  have wf: "wf_df e" using wf_df_encode[OF wf_df_clean(1)[OF assms(2,6)] e] .
  have sp: "set ?p = {0..<len e}" using is_permutation_facts(2)[OF assms(5)] by (simp add: n)
  have q1: "set (take (int_float_mul float_0_7 (len df)) ?p) \<subseteq> {0..<len e}"
    using set_take_subset[of _ ?p] sp by fast
  have q2: "set (slice (int_float_mul float_0_7 (len df)) (int_float_mul float_0_9 (len df)) ?p)
      \<subseteq> {0..<len e}"
    using set_slice_subset[of _ _ ?p] sp by fast
  have q3: "set (drop (int_float_mul float_0_9 (len df)) ?p) \<subseteq> {0..<len e}"
    using set_drop_subset[of _ ?p] sp by fast
  obtain tr va te where u: "upstream l (Some seed) url w = Inr (tr, va, te)"
    and f: "files w' train_path = Some (csv_text l tr)"
      "files w' validation_path = Some (csv_text l va)"
      "files w' test_path = Some (csv_text l te)"
    and b: "read_back (csv_text l tr) = map (csv_record l e)
          (take (int_float_mul float_0_7 (len df)) ?p)"
      "read_back (csv_text l va) = map (csv_record l e)
          (slice (int_float_mul float_0_7 (len df)) (int_float_mul float_0_9 (len df)) ?p)"
      "read_back (csv_text l te) = map (csv_record l e)
          (drop (int_float_mul float_0_9 (len df)) ?p)"
    using finished_run[OF assms(1,2,3,4,5,6) e assms(9)] by blast
  note l1 = label_fields[OF wf cols' bin q1, of l]
  note l2 = label_fields[OF wf cols' bin q2, of l]
  note l3 = label_fields[OF wf cols' bin q3, of l]
  have h: "map hd (read_back (csv_text l tr)) = map (\<lambda>i. csv_cell l (col_vals label ! i))
      (take (int_float_mul float_0_7 (len df)) ?p)"
    "map hd (read_back (csv_text l va)) = map (\<lambda>i. csv_cell l (col_vals label ! i))
      (slice (int_float_mul float_0_7 (len df)) (int_float_mul float_0_9 (len df)) ?p)"
    "map hd (read_back (csv_text l te)) = map (\<lambda>i. csv_cell l (col_vals label ! i))
      (drop (int_float_mul float_0_9 (len df)) ?p)"
    unfolding b by (rule l1(1) l2(1) l3(1))+
  have a: "\<forall>fs\<in>set (read_back (csv_text l tr)) \<union> set (read_back (csv_text l va)) \<union>
        set (read_back (csv_text l te)).
       fs \<noteq> [] \<and> (hd fs = ''0'' \<or> hd fs = ''1'') \<and> length (tl fs) = length feats"
    unfolding b using l1(2) l2(2) l3(2) by blast
  show ?thesis
    apply (rule exI[of _ e], rule exI[of _ label], rule exI[of _ feats], rule exI[of _ src])
    apply (rule exI[of _ lv], rule exI[of _ tr], rule exI[of _ va], rule exI[of _ te])
    apply (intro conjI)
    by (fact e cols' lab src vals feats u f h a)+
qed

theorem label_first_and_binary_witness:
  "map_option (map hd \<circ> read_back) (files (fst (main (sample_lib sample_csv sample_frame [0, 3, 2, 1])
      sample_url (sample_world sample_csv))) train_path) = Some [''0'', ''1''] \<and>
   map_option (map hd \<circ> read_back) (files (fst (main (sample_lib sample_csv sample_frame [0, 3, 2, 1])
      sample_url (sample_world sample_csv))) validation_path) = Some [''0''] \<and>
   map_option (map hd \<circ> read_back) (files (fst (main (sample_lib sample_csv sample_frame [0, 3, 2, 1])
      sample_url (sample_world sample_csv))) test_path) = Some [''1'']"
proof -
  let ?l = "sample_lib sample_csv sample_frame [0, 3, 2, 1]"
  let ?w = "sample_world sample_csv"
  let ?v = "?w\<lparr>dirs := insert ''/opt/ml/processing/data'' (dirs ?w),
       files := (files ?w)(raw_path \<mapsto> sample_csv)\<rparr>"
  obtain w' where m: "main ?l sample_url ?w = (w', None)" by (rule main_sample_world)
  have ld: "load ?l sample_url ?w = (Inr sample_frame, ?v)"
    using sample_csv_not_empty(1) sample_world_fetch[of sample_csv] by (rule load_sample) simp
  have pm: "is_permutation (permutation ?l (RandomState seed) (len sample_frame)) (len sample_frame)"
    unfolding sample_frame_facts(3) sample_lib_facts(2) by (rule is_permutation_0321(1))
  have h3: "distinct (names (get_dummies ?l sample_cleaned))"
    by (simp add: names_def get_dummies_sample)
  have h4: "''Churn?_True.'' \<notin> set (names sample_cleaned)"
    by (simp add: names_def sample_cleaned_def)
  from label_first_and_binary[OF ld sample_frame_facts(1,2) sample_lib_facts(1) pm clean_sample h3 h4 m]
  obtain e label feats src lv tr va te where r: "encode ?l sample_cleaned = Inr e"
    "df_columns e = label # feats"
    "files w' train_path = Some (csv_text ?l tr)"
    "files w' validation_path = Some (csv_text ?l va)"
    "files w' test_path = Some (csv_text ?l te)"
    "map hd (read_back (csv_text ?l tr)) = map (\<lambda>i. csv_cell ?l (col_vals label ! i))
      (take (int_float_mul float_0_7 (len sample_frame))
         (permutation ?l (RandomState seed) (len sample_frame)))"
    "map hd (read_back (csv_text ?l va)) = map (\<lambda>i. csv_cell ?l (col_vals label ! i))
      (slice (int_float_mul float_0_7 (len sample_frame)) (int_float_mul float_0_9 (len sample_frame))
         (permutation ?l (RandomState seed) (len sample_frame)))"
    "map hd (read_back (csv_text ?l te)) = map (\<lambda>i. csv_cell ?l (col_vals label ! i))
      (drop (int_float_mul float_0_9 (len sample_frame))
         (permutation ?l (RandomState seed) (len sample_frame)))"
    and "col_name label = ''Churn?_True.''" and "col_dtype label = UInt8"
    and "src \<in> set (df_columns sample_cleaned)" and "col_name src = ''Churn?''"
    and "level_str ?l lv = ''True.''" and "col_vals label = map (indicator lv) (col_vals src)"
    and "\<forall>f\<in>set feats. col_name f \<noteq> ''Churn?_True.'' \<and> col_name f \<noteq> ''Churn?_False.''"
    and "upstream ?l (Some seed) sample_url ?w = Inr (tr, va, te)"
    and "\<forall>fs\<in>set (read_back (csv_text ?l tr)) \<union> set (read_back (csv_text ?l va)) \<union>
        set (read_back (csv_text ?l te)).
       fs \<noteq> [] \<and> (hd fs = ''0'' \<or> hd fs = ''1'') \<and> length (tl fs) = length feats"
    by (elim exE conjE)
  have e: "e = sample_encoded" using r(1) encode_sample[of ?l] by simp
  have lab: "col_vals label = [I 0, I 1, I 0, I 1]"
    using r(2) unfolding e by (auto simp: sample_encoded_def)
  note b = r(6,7,8)[unfolded sample_frame_facts(3) sample_lib_facts(2) int_float_mul_4 lab]
  have "map hd (read_back (csv_text ?l tr)) = [''0'', ''1'']"
    "map hd (read_back (csv_text ?l va)) = [''0'']"
    "map hd (read_back (csv_text ?l te)) = [''1'']"
    unfolding b by (simp_all add: slice_def csv_cell_bit)
  then show ?thesis
    unfolding m fst_conv r(3,4,5) option.map comp_def by (intro conjI) simp_all
qed

end
